theory Spec2Isabelle
  imports Main "HOL-Library.Sublist" "HOL-Library.Char_ord" "HOL-Library.List_Lexorder"
begin

section \<open>Strings\<close>

text \<open>
  Python's \<^verbatim>\<open>str.partition(sep)\<close>: split at the first occurrence of \<open>sep\<close>;
  \<open>(s, '', '')\<close> when \<open>sep\<close> does not occur. The separator is never empty in
  \<^verbatim>\<open>serialize_ast.py\<close> (it always ends in a dot).
\<close>

fun partition_str :: "string \<Rightarrow> string \<Rightarrow> string \<times> string \<times> string" where
  "partition_str [] sep = ([], [], [])"
| "partition_str (c # cs) sep =
     (if prefix sep (c # cs) then ([], sep, drop (length sep) (c # cs))
      else (case partition_str cs sep of (b, m, a) \<Rightarrow> (c # b, m, a)))"

text \<open>
  \<^verbatim>\<open>str.rpartition(sep)\<close>: split at the last occurrence; \<open>('', '', s)\<close> when
  there is none. The last occurrence in \<open>s\<close> is the first one in the reversed string.
\<close>

definition rpartition :: "string \<Rightarrow> string \<Rightarrow> string \<times> string \<times> string" where
  "rpartition s sep =
     (case partition_str (rev s) (rev sep) of (a, m, b) \<Rightarrow>
        if m = [] then ([], [], s) else (rev b, rev m, rev a))"

text \<open>\<^verbatim>\<open>s.endswith(suf)\<close> and \<^verbatim>\<open>s.rsplit(sep, 1)[0]\<close>.\<close>

definition endswith :: "string \<Rightarrow> string \<Rightarrow> bool" where
  "endswith s suf = suffix suf s"

definition rsplit1_head :: "string \<Rightarrow> string \<Rightarrow> string" where
  "rsplit1_head s sep = (case rpartition s sep of (b, m, a) \<Rightarrow> if m = [] then s else b)"

text \<open>\<^verbatim>\<open>"%r" % s\<close> for a string without quotes or escapes: the string in single quotes.\<close>

definition repr :: "string \<Rightarrow> string" where
  "repr s = CHR 0x27 # s @ [CHR 0x27]"

section \<open>The declaration tree\<close>

text \<open>
  Modelled from the spec: the node classes of \<^verbatim>\<open>pytd\<close> (the module \<^verbatim>\<open>pytd.py\<close>
  is not among the sources). The spec's data model has a root with a dotted name and
  ordered lists of constant, type parameter, class, function and alias declarations, and
  class reference nodes with a name and a nullable, mutable pointer. The node kinds are
  the ones \<^verbatim>\<open>RenameModuleVisitor\<close> has hooks for, with \<open>GenericType\<close> and \<open>Signature\<close> to
  nest types. Python trees are dynamically typed, so all node classes are constructors
  of one type.

  A \<open>ClassType\<close> object is the only mutable node: its name is fixed at construction, its
  \<open>cls\<close> attribute is assigned later. The node carries its name and the address of the
  object; the store holds the \<open>cls\<close> attribute of every \<open>ClassType\<close> object. Two
  \<open>ClassType\<close> nodes are the same Python object iff they have the same address.
\<close>

type_synonym addr = nat

datatype node =
    NamedType string
  | StrictType string
  | ClassType string addr
  | TypeParameter string "string option"
  | GenericType node "node list"
  | Signature "node list" node
  | Constant string node
  | Alias string node
  | Function string "node list"
  | Class string "node list" "node list" "node list"
  | TypeDeclUnit string "node list" "node list" "node list" "node list" "node list"

text \<open>
  \<open>TypeParameter name scope\<close>; \<open>GenericType base_type parameters\<close>;
  \<open>Signature params return_type\<close>; \<open>Function name signatures\<close>;
  \<open>Class name parents methods constants\<close>;
  \<open>TypeDeclUnit name constants type_params classes functions aliases\<close>.
\<close>

record store =
  cls :: "addr \<Rightarrow> node option"
  fresh :: addr

text \<open>\<^verbatim>\<open>node.cls = c\<close>, and the constructor \<^verbatim>\<open>pytd.ClassType(name, cls)\<close>.\<close>

definition set_cls :: "addr \<Rightarrow> node option \<Rightarrow> store \<Rightarrow> store" where
  "set_cls p c s = s\<lparr>cls := (cls s)(p := c)\<rparr>"

definition new_ClassType :: "string \<Rightarrow> node option \<Rightarrow> store \<Rightarrow> node \<times> store" where
  "new_ClassType nm c s =
     (ClassType nm (fresh s), s\<lparr>cls := (cls s)(fresh s := c), fresh := Suc (fresh s)\<rparr>)"

text \<open>\<^verbatim>\<open>node.name\<close>; the nodes without a name have none to read.\<close>

fun node_name :: "node \<Rightarrow> string" where
  "node_name (NamedType nm) = nm"
| "node_name (StrictType nm) = nm"
| "node_name (ClassType nm p) = nm"
| "node_name (TypeParameter nm sc) = nm"
| "node_name (Constant nm t) = nm"
| "node_name (Alias nm t) = nm"
| "node_name (Function nm sigs) = nm"
| "node_name (Class nm ps ms cs) = nm"
| "node_name (TypeDeclUnit nm cs tps cl fs al) = nm"
| "node_name (GenericType b ps) = []"
| "node_name (Signature ps r) = []"

text \<open>\<^verbatim>\<open>node.Replace(name=new_name)\<close>.\<close>

fun Replace_name :: "node \<Rightarrow> string \<Rightarrow> node" where
  "Replace_name (NamedType nm) x = NamedType x"
| "Replace_name (StrictType nm) x = StrictType x"
| "Replace_name (ClassType nm p) x = ClassType x p"
| "Replace_name (TypeParameter nm sc) x = TypeParameter x sc"
| "Replace_name (Constant nm t) x = Constant x t"
| "Replace_name (Alias nm t) x = Alias x t"
| "Replace_name (Function nm sigs) x = Function x sigs"
| "Replace_name (Class nm ps ms cs) x = Class x ps ms cs"
| "Replace_name (TypeDeclUnit nm cs tps cl fs al) x = TypeDeclUnit x cs tps cl fs al"
| "Replace_name (GenericType b ps) x = GenericType b ps"
| "Replace_name (Signature ps r) x = Signature ps r"

section \<open>Errors\<close>

datatype error =
    ValueError string
  | AssertionError string
  | KeyError string
  | UnrestorableDependencyError string

definition bindE :: "error + 'a \<Rightarrow> ('a \<Rightarrow> error + 'b) \<Rightarrow> error + 'b" where
  "bindE m f = (case m of Inl e \<Rightarrow> Inl e | Inr x \<Rightarrow> f x)"

section \<open>The visitor engine\<close>

text \<open>
  Modelled from the spec: \<^verbatim>\<open>Visitor\<close> and \<^verbatim>\<open>node.Visit\<close> of \<^verbatim>\<open>visitors.py\<close>
  (not among the sources), by the contract the spec gives for the tree-transform
  engine: apply a set of per-node-kind hooks over a tree and return a possibly new tree.
  A visitor has \<open>Enter\<close> hooks (called on the way down, for their effect) and \<open>Visit\<close>
  hooks (called on the way up with the node rebuilt from its visited children, returning
  the replacement). A hook may raise. The \<open>cls\<close> attribute of a class reference is not a
  child and is never descended into.
\<close>

record 's visitor =
  Enter :: "node \<Rightarrow> 's \<Rightarrow> 's"
  VisitNode :: "node \<Rightarrow> 's \<Rightarrow> error + node \<times> 's"

text \<open>
  The engine walks the fields of a node generically: \<open>children\<close> lists the child
  nodes in field order, \<open>rebuild\<close> is the node with new children in the same fields.
\<close>

fun children :: "node \<Rightarrow> node list" where
  "children (GenericType b ps) = b # ps"
| "children (Signature ps r) = ps @ [r]"
| "children (Constant nm t) = [t]"
| "children (Alias nm t) = [t]"
| "children (Function nm sigs) = sigs"
| "children (Class nm ps ms cs) = ps @ ms @ cs"
| "children (TypeDeclUnit nm cs tps cl fs al) = cs @ tps @ cl @ fs @ al"
| "children n = []"

fun rebuild :: "node \<Rightarrow> node list \<Rightarrow> node" where
  "rebuild (GenericType b ps) xs = GenericType (hd xs) (tl xs)"
| "rebuild (Signature ps r) xs = Signature (butlast xs) (last xs)"
| "rebuild (Constant nm t) xs = Constant nm (hd xs)"
| "rebuild (Alias nm t) xs = Alias nm (hd xs)"
| "rebuild (Function nm sigs) xs = Function nm xs"
| "rebuild (Class nm ps ms cs) xs =
     Class nm (take (length ps) xs) (take (length ms) (drop (length ps) xs))
       (drop (length ms) (drop (length ps) xs))"
| "rebuild (TypeDeclUnit nm cs tps cl fs al) xs =
     TypeDeclUnit nm (take (length cs) xs)
       (take (length tps) (drop (length cs) xs))
       (take (length cl) (drop (length tps) (drop (length cs) xs)))
       (take (length fs) (drop (length cl) (drop (length tps) (drop (length cs) xs))))
       (drop (length fs) (drop (length cl) (drop (length tps) (drop (length cs) xs))))"
| "rebuild n xs = n"

function Visit :: "'s visitor \<Rightarrow> node \<Rightarrow> 's \<Rightarrow> error + node \<times> 's"
and VisitList :: "'s visitor \<Rightarrow> node list \<Rightarrow> 's \<Rightarrow> error + node list \<times> 's" where
  "Visit v n s =
     (case VisitList v (children n) (Enter v n s) of
        Inl e \<Rightarrow> Inl e
      | Inr (xs, s1) \<Rightarrow> VisitNode v (rebuild n xs) s1)"
| "VisitList v [] s = Inr ([], s)"
| "VisitList v (n # ns) s =
     (case Visit v n s of
        Inl e \<Rightarrow> Inl e
      | Inr (n', s1) \<Rightarrow>
         (case VisitList v ns s1 of
            Inl e \<Rightarrow> Inl e
          | Inr (ns', s2) \<Rightarrow> Inr (n' # ns', s2)))"
  by pat_completeness auto
termination
proof (relation "measure (\<lambda>x. case x of Inl (v, n, s) \<Rightarrow> 2 * size n + 2
                                   | Inr (v, ns, s) \<Rightarrow> 2 * size_list size ns + 1)")
  show "wf (measure (\<lambda>x. case x of Inl (v, n, s) \<Rightarrow> 2 * size n + 2
                                 | Inr (v, ns, s) \<Rightarrow> 2 * size_list size ns + 1))"
    by simp
next
  fix v :: "'s visitor" and n :: node and s :: 's
  have "size_list size (children n) \<le> size n"
    by (cases n) simp_all
  then show "(Inr (v, children n, Enter v n s), Inl (v, n, s))
      \<in> measure (\<lambda>x. case x of Inl (v, n, s) \<Rightarrow> 2 * size n + 2
                               | Inr (v, ns, s) \<Rightarrow> 2 * size_list size ns + 1)"
    by simp
qed simp_all

section \<open>Traversal order of the class references\<close>

text \<open>
  The \<open>ClassType\<close> objects of a tree (name and address), in the order in which the
  engine enters them. A visitor that only has an \<open>EnterClassType\<close> hook runs that hook
  over this list (lemma \<open>Visit_on_ClassType\<close> below).
\<close>

type_synonym class_type = "string \<times> addr"

fun class_types :: "node \<Rightarrow> class_type list"
and class_types_list :: "node list \<Rightarrow> class_type list" where
  "class_types (NamedType nm) = []"
| "class_types (StrictType nm) = []"
| "class_types (ClassType nm p) = [(nm, p)]"
| "class_types (TypeParameter nm sc) = []"
| "class_types (GenericType b ps) = class_types b @ class_types_list ps"
| "class_types (Signature ps r) = class_types_list ps @ class_types r"
| "class_types (Constant nm t) = class_types t"
| "class_types (Alias nm t) = class_types t"
| "class_types (Function nm sigs) = class_types_list sigs"
| "class_types (Class nm ps ms cs) =
     class_types_list ps @ class_types_list ms @ class_types_list cs"
| "class_types (TypeDeclUnit nm cs tps cl fs al) =
     class_types_list cs @ class_types_list tps @ class_types_list cl @
     class_types_list fs @ class_types_list al"
| "class_types_list [] = []"
| "class_types_list (n # ns) = class_types n @ class_types_list ns"

definition on_ClassType :: "(class_type \<Rightarrow> 's \<Rightarrow> 's) \<Rightarrow> node \<Rightarrow> 's \<Rightarrow> 's" where
  "on_ClassType h n s = (case n of ClassType nm p \<Rightarrow> h (nm, p) s | _ \<Rightarrow> s)"

definition no_Enter :: "node \<Rightarrow> 's \<Rightarrow> 's" where
  "no_Enter n s = s"

definition no_Visit :: "node \<Rightarrow> 's \<Rightarrow> error + node \<times> 's" where
  "no_Visit n s = Inr (n, s)"

section \<open>\<^verbatim>\<open>FindClassTypesVisitor\<close>\<close>

definition EnterClassType_find :: "class_type \<Rightarrow> class_type list \<Rightarrow> class_type list" where
  "EnterClassType_find n class_type_nodes = class_type_nodes @ [n]"

definition FindClassTypesVisitor :: "class_type list visitor" where
  "FindClassTypesVisitor = \<lparr>Enter = on_ClassType EnterClassType_find, VisitNode = no_Visit\<rparr>"

section \<open>\<^verbatim>\<open>SerializableAst\<close>\<close>

record SerializableAst =
  ast :: node
  dependencies :: "string list"
  class_type_nodes :: "class_type list option"

section \<open>\<^verbatim>\<open>RenameModuleVisitor\<close>\<close>

record renamer =
  r_module_name :: string
  r_old :: string
  r_new :: string

text \<open>The constructor, with its \<^verbatim>\<open>ValueError\<close> and its two assertions.\<close>

definition RenameModuleVisitor :: "string \<Rightarrow> string \<Rightarrow> error + renamer" where
  "RenameModuleVisitor old_module_name new_module_name =
     (if old_module_name = [] then Inl (ValueError ''old_module_name must be a non empty string.'')
      else if endswith old_module_name ''.'' then Inl (AssertionError [])
      else if endswith new_module_name ''.'' then Inl (AssertionError [])
      else Inr \<lparr>r_module_name = new_module_name,
                r_old = (if old_module_name \<noteq> [] then old_module_name @ ''.'' else []),
                r_new = (if new_module_name \<noteq> [] then new_module_name @ ''.'' else [])\<rparr>)"

definition MaybeNewName :: "renamer \<Rightarrow> string \<Rightarrow> string" where
  "MaybeNewName r nm =
     (if nm = [] then nm
      else (case partition_str nm (r_old r) of (b, m, a) \<Rightarrow>
        if m \<noteq> [] \<and> b = [] \<and> CHR ''.'' \<notin> set a then r_new r @ a else nm))"

definition ReplaceModuleName :: "renamer \<Rightarrow> node \<Rightarrow> node" where
  "ReplaceModuleName r n =
     (let new_name = MaybeNewName r (node_name n)
      in if new_name \<noteq> node_name n then Replace_name n new_name else n)"

definition VisitClassType_rename :: "renamer \<Rightarrow> class_type \<Rightarrow> store \<Rightarrow> node \<times> store" where
  "VisitClassType_rename r n s = (case n of (nm, p) \<Rightarrow>
     (let new_name = MaybeNewName r nm
      in if new_name \<noteq> nm then new_ClassType new_name (cls s p) s else (ClassType nm p, s)))"

definition VisitTypeDeclUnit :: "renamer \<Rightarrow> node \<Rightarrow> node" where
  "VisitTypeDeclUnit r n = Replace_name n (r_module_name r)"

text \<open>\<^verbatim>\<open>_MaybeNewName\<close> returns a scope of \<^verbatim>\<open>None\<close> as it is.\<close>

definition VisitTypeParameter :: "renamer \<Rightarrow> string \<Rightarrow> string option \<Rightarrow> node" where
  "VisitTypeParameter r nm scope =
     (let new_scope = (case scope of None \<Rightarrow> None | Some x \<Rightarrow> Some (MaybeNewName r x))
      in if new_scope \<noteq> scope then TypeParameter nm new_scope else TypeParameter nm scope)"

fun VisitNode_rename :: "renamer \<Rightarrow> node \<Rightarrow> store \<Rightarrow> error + node \<times> store" where
  "VisitNode_rename r (ClassType nm p) s = Inr (VisitClassType_rename r (nm, p) s)"
| "VisitNode_rename r (TypeDeclUnit nm cs tps cl fs al) s =
     Inr (VisitTypeDeclUnit r (TypeDeclUnit nm cs tps cl fs al), s)"
| "VisitNode_rename r (TypeParameter nm sc) s = Inr (VisitTypeParameter r nm sc, s)"
| "VisitNode_rename r (GenericType b ps) s = Inr (GenericType b ps, s)"
| "VisitNode_rename r (Signature ps t) s = Inr (Signature ps t, s)"
| "VisitNode_rename r n s = Inr (ReplaceModuleName r n, s)"

definition rename_visitor :: "renamer \<Rightarrow> store visitor" where
  "rename_visitor r = \<lparr>Enter = no_Enter, VisitNode = VisitNode_rename r\<rparr>"

section \<open>The visitors of \<^verbatim>\<open>visitors.py\<close>\<close>

type_synonym module_map = "string \<rightharpoonup> node"

text \<open>
  Modelled from the spec: \<^verbatim>\<open>TypeDeclUnit.Lookup\<close> of \<^verbatim>\<open>pytd.py\<close> (not among the
  sources), as far as resolution uses it: the class or alias a module declares under a
  fully qualified name.
\<close>

fun Lookup :: "node \<Rightarrow> string \<Rightarrow> node option" where
  "Lookup (TypeDeclUnit nm cs tps cl fs al) x = find (\<lambda>d. node_name d = x) (cl @ al)"
| "Lookup n x = None"

text \<open>
  Modelled from the spec: \<^verbatim>\<open>visitors.CollectDependencies\<close> (not among the sources),
  the traversal that returns the module names that reference nodes name. The docstring of
  \<^verbatim>\<open>SerializableAst\<close> says that the set also holds the module itself, so the module
  part of every dotted class reference is collected, the tree's own module included; a
  name without a dot names no module.
\<close>

definition EnterClassType_deps :: "class_type \<Rightarrow> string set \<Rightarrow> string set" where
  "EnterClassType_deps n modules = (case rpartition (fst n) ''.'' of (module_name, dot, x) \<Rightarrow>
     if dot \<noteq> [] then insert module_name modules else modules)"

definition CollectDependencies :: "string set visitor" where
  "CollectDependencies = \<lparr>Enter = on_ClassType EnterClassType_deps, VisitNode = no_Visit\<rparr>"

text \<open>
  Modelled from the spec: \<^verbatim>\<open>visitors.ClearClassPointers\<close> (not among the sources):
  clear the resolved pointer of every class reference. \<^verbatim>\<open>StoreAst\<close> drops what the
  visit returns and stores the tree it visited, so the clearing is an assignment to the
  \<open>cls\<close> attribute of the node entered.
\<close>

definition EnterClassType_clear :: "class_type \<Rightarrow> store \<Rightarrow> store" where
  "EnterClassType_clear n s = set_cls (snd n) None s"

definition ClearClassPointers :: "store visitor" where
  "ClearClassPointers = \<lparr>Enter = on_ClassType EnterClassType_clear, VisitNode = no_Visit\<rparr>"

text \<open>
  Modelled from the spec: \<^verbatim>\<open>visitors.LookupExternalTypes\<close> (not among the sources),
  the external resolver of one class reference. A reference without a module part, or
  into the module \<open>self_name\<close>, is skipped. Otherwise the fully qualified name is looked
  up in the module map: a name that is absent raises \<^verbatim>\<open>KeyError\<close> naming it; a class
  is assigned to the pointer of the node, which is returned as it is (the fast path of
  \<^verbatim>\<open>_LookupClassReferences\<close> drops the returned node, so the pointer is set in place);
  a target that is not a class (an alias) has another shape than the reference, and the
  aliased type is returned as the replacement node.
\<close>

definition VisitClassType_lookup ::
  "module_map \<Rightarrow> string option \<Rightarrow> class_type \<Rightarrow> store \<Rightarrow> error + node \<times> store" where
  "VisitClassType_lookup mm self_name n s = (case n of (nm, p) \<Rightarrow>
     (case rpartition nm ''.'' of (module_name, dot, x) \<Rightarrow>
        if dot = [] \<or> Some module_name = self_name then Inr (ClassType nm p, s)
        else (case mm module_name of
                None \<Rightarrow> Inl (KeyError nm)
              | Some m \<Rightarrow>
                 (case Lookup m nm of
                    Some (Class cn ps ms cs) \<Rightarrow>
                      Inr (ClassType nm p, set_cls p (Some (Class cn ps ms cs)) s)
                  | Some (Alias an t) \<Rightarrow> Inr (t, s)
                  | _ \<Rightarrow> Inl (KeyError nm)))))"

definition VisitNode_lookup ::
  "module_map \<Rightarrow> string option \<Rightarrow> node \<Rightarrow> store \<Rightarrow> error + node \<times> store" where
  "VisitNode_lookup mm self_name n s =
     (case n of ClassType nm p \<Rightarrow> VisitClassType_lookup mm self_name (nm, p) s | _ \<Rightarrow> Inr (n, s))"

definition LookupExternalTypes :: "module_map \<Rightarrow> string option \<Rightarrow> store visitor" where
  "LookupExternalTypes mm self_name = \<lparr>Enter = no_Enter, VisitNode = VisitNode_lookup mm self_name\<rparr>"

text \<open>
  Modelled from the spec: \<^verbatim>\<open>visitors.FillInLocalPointers\<close> (not among the sources),
  the local resolver of one class reference: the module part of the name selects a tree
  of the map it was given, and a class declared there under the name is assigned to the
  pointer, in place. A reference that finds no class is left as it is.
\<close>

definition EnterClassType_fill :: "module_map \<Rightarrow> class_type \<Rightarrow> store \<Rightarrow> store" where
  "EnterClassType_fill mm n s = (case n of (nm, p) \<Rightarrow>
     (case rpartition nm ''.'' of (module_name, dot, x) \<Rightarrow>
        (case mm module_name of
           None \<Rightarrow> s
         | Some m \<Rightarrow>
            (case Lookup m nm of
               Some (Class cn ps ms cs) \<Rightarrow> set_cls p (Some (Class cn ps ms cs)) s
             | _ \<Rightarrow> s))))"

definition FillInLocalPointers :: "module_map \<Rightarrow> store visitor" where
  "FillInLocalPointers mm = \<lparr>Enter = on_ClassType (EnterClassType_fill mm), VisitNode = no_Visit\<rparr>"

section \<open>\<^verbatim>\<open>StoreAst\<close>, \<^verbatim>\<open>EnsureAstName\<close>, \<^verbatim>\<open>ProcessAst\<close>\<close>

text \<open>
  The pickle codec is outside the module and round-trips a bundle exactly, so
  \<open>StoreAst\<close> returns the bundle it hands to \<^verbatim>\<open>SavePickle\<close>, and the store as the
  call leaves it. \<^verbatim>\<open>sorted\<close> orders the collected \<open>ClassType\<close> nodes by their tuple of
  fields, which is the name, and is stable.
\<close>

definition StoreAst :: "node \<Rightarrow> store \<Rightarrow> error + SerializableAst \<times> store" where
  "StoreAst t s =
     bindE (if endswith (node_name t) ''.__init__''
            then bindE (RenameModuleVisitor (node_name t) (rsplit1_head (node_name t) ''.__init__''))
                   (\<lambda>r. Visit (rename_visitor r) t s)
            else Inr (t, s)) (\<lambda>(t, s).
     bindE (Visit CollectDependencies t {}) (\<lambda>(u, modules).
     bindE (Visit ClearClassPointers t s) (\<lambda>(u, s).
     bindE (Visit FindClassTypesVisitor t []) (\<lambda>(u, nodes).
     Inr (\<lparr>ast = t, dependencies = sorted_list_of_set modules,
            class_type_nodes = Some (sort_key fst nodes)\<rparr>, s)))))"

definition EnsureAstName :: "SerializableAst \<Rightarrow> string \<Rightarrow> store \<Rightarrow> error + SerializableAst \<times> store" where
  "EnsureAstName b module_name s =
     (let raw_ast = ast b
      in if module_name \<noteq> node_name raw_ast
         then (let b = b\<lparr>class_type_nodes := None\<rparr>
               in bindE (RenameModuleVisitor (node_name raw_ast) module_name) (\<lambda>r.
                  bindE (Visit (rename_visitor r) raw_ast s) (\<lambda>(t, s).
                  Inr (b\<lparr>ast := t\<rparr>, s))))
         else Inr (b, s))"

text \<open>
  The fast path of \<^verbatim>\<open>_LookupClassReferences\<close>: the loop over the indexed nodes. A
  \<^verbatim>\<open>KeyError\<close> becomes an \<^verbatim>\<open>UnrestorableDependencyError\<close>; a returned node that is
  not the node itself drops the index and leaves the loop.
\<close>

definition unrestorable :: "error \<Rightarrow> error" where
  "unrestorable e = (case e of
     KeyError m \<Rightarrow> UnrestorableDependencyError (''Unresolved class: '' @ repr m @ ''.'')
   | _ \<Rightarrow> e)"

fun lookup_nodes ::
  "module_map \<Rightarrow> string option \<Rightarrow> class_type list \<Rightarrow> SerializableAst \<Rightarrow> store
     \<Rightarrow> error + SerializableAst \<times> store" where
  "lookup_nodes mm self_name [] b s = Inr (b, s)"
| "lookup_nodes mm self_name (n # ns) b s =
     (case VisitClassType_lookup mm self_name n s of
        Inl e \<Rightarrow> Inl (unrestorable e)
      | Inr (n', s') \<Rightarrow>
          if n' \<noteq> ClassType (fst n) (snd n) then Inr (b\<lparr>class_type_nodes := None\<rparr>, s')
          else lookup_nodes mm self_name ns b s')"

definition LookupClassReferences ::
  "SerializableAst \<Rightarrow> module_map \<Rightarrow> string option \<Rightarrow> store \<Rightarrow> error + SerializableAst \<times> store" where
  "LookupClassReferences b mm self_name s =
     (let raw_ast = ast b
      in bindE (case class_type_nodes b of
                  Some (n # ns) \<Rightarrow> lookup_nodes mm self_name (n # ns) b s
                | _ \<Rightarrow> Inr (b, s)) (\<lambda>(b, s).
         bindE (if class_type_nodes b = None
                then (case Visit (LookupExternalTypes mm self_name) raw_ast s of
                        Inl e \<Rightarrow> Inl (unrestorable e)
                      | Inr (t, s) \<Rightarrow> Inr (t, s))
                else Inr (raw_ast, s)) (\<lambda>(raw_ast, s).
         Inr (b\<lparr>ast := raw_ast\<rparr>, s))))"

text \<open>
  \<^verbatim>\<open>_FillLocalReferences\<close>. The string of a class reference whose pointer is null is
  its name.
\<close>

fun fill_nodes :: "module_map \<Rightarrow> class_type list \<Rightarrow> store \<Rightarrow> error + store" where
  "fill_nodes mm [] s = Inr s"
| "fill_nodes mm (n # ns) s =
     (let s = EnterClassType_fill mm n s
      in if cls s (snd n) = None then Inl (AssertionError (''This should not happen: '' @ fst n))
         else fill_nodes mm ns s)"

definition FillLocalReferences :: "SerializableAst \<Rightarrow> module_map \<Rightarrow> store \<Rightarrow> error + store" where
  "FillLocalReferences b mm s =
     (case class_type_nodes b of
        Some (n # ns) \<Rightarrow> fill_nodes mm (n # ns) s
      | _ \<Rightarrow> bindE (Visit (FillInLocalPointers mm) (ast b) s) (\<lambda>(u, s). Inr s))"

definition ProcessAst :: "SerializableAst \<Rightarrow> module_map \<Rightarrow> store \<Rightarrow> error + node \<times> store" where
  "ProcessAst b mm s =
     bindE (LookupClassReferences b mm (Some (node_name (ast b))) s) (\<lambda>(b, s).
     bindE (FillLocalReferences b [[] \<mapsto> ast b, node_name (ast b) \<mapsto> ast b] s) (\<lambda>s.
     Inr (ast b, s)))"

section \<open>Notions used in the statements\<close>

text \<open>
  The name-bearing fields the renamer looks at, in traversal order: the names of
  constants, aliases, classes, functions and of named, strict and class types, and the
  scope of a type parameter. The name of a \<open>TypeDeclUnit\<close> is not among them: the renamer
  replaces it without looking at it.
\<close>

fun own_names :: "node \<Rightarrow> string list" where
  "own_names (NamedType nm) = [nm]"
| "own_names (StrictType nm) = [nm]"
| "own_names (ClassType nm p) = [nm]"
| "own_names (TypeParameter nm sc) = (case sc of None \<Rightarrow> [] | Some x \<Rightarrow> [x])"
| "own_names (Constant nm t) = [nm]"
| "own_names (Alias nm t) = [nm]"
| "own_names (Function nm sigs) = [nm]"
| "own_names (Class nm ps ms cs) = [nm]"
| "own_names n = []"

fun name_fields :: "node \<Rightarrow> string list"
and name_fields_list :: "node list \<Rightarrow> string list" where
  "name_fields (NamedType nm) = [nm]"
| "name_fields (StrictType nm) = [nm]"
| "name_fields (ClassType nm p) = [nm]"
| "name_fields (TypeParameter nm sc) = (case sc of None \<Rightarrow> [] | Some x \<Rightarrow> [x])"
| "name_fields (GenericType b ps) = name_fields b @ name_fields_list ps"
| "name_fields (Signature ps r) = name_fields_list ps @ name_fields r"
| "name_fields (Constant nm t) = nm # name_fields t"
| "name_fields (Alias nm t) = nm # name_fields t"
| "name_fields (Function nm sigs) = nm # name_fields_list sigs"
| "name_fields (Class nm ps ms cs) =
     nm # name_fields_list ps @ name_fields_list ms @ name_fields_list cs"
| "name_fields (TypeDeclUnit nm cs tps cl fs al) =
     name_fields_list cs @ name_fields_list tps @ name_fields_list cl @
     name_fields_list fs @ name_fields_list al"
| "name_fields_list [] = []"
| "name_fields_list (n # ns) = name_fields n @ name_fields_list ns"

text \<open>The class reference a node is itself, if it is one.\<close>

definition own_class_types :: "node \<Rightarrow> class_type list" where
  "own_class_types n = (case n of ClassType nm p \<Rightarrow> [(nm, p)] | _ \<Rightarrow> [])"

text \<open>
  Every \<open>ClassType\<close> object of a list is allocated: its address is below the next free
  one. The store \<open>s'\<close> extends \<open>s\<close>: it may hold more objects, and the objects of \<open>s\<close> have
  the pointers they had.
\<close>

definition allocated :: "store \<Rightarrow> class_type list \<Rightarrow> bool" where
  "allocated s ns = list_all (\<lambda>n. snd n < fresh s) ns"

definition extends :: "store \<Rightarrow> store \<Rightarrow> bool" where
  "extends s s' = (fresh s \<le> fresh s' \<and> (\<forall>p. p < fresh s \<longrightarrow> cls s' p = cls s p))"

text \<open>
  The class reference \<open>n'\<close> in the store \<open>s'\<close> is the renamed class reference \<open>n\<close> of the
  store \<open>s\<close>: its name is the new name, it is allocated, and it has the pointer \<open>n\<close> had.
\<close>

definition renamed_ref :: "renamer \<Rightarrow> store \<Rightarrow> store \<Rightarrow> class_type \<Rightarrow> class_type \<Rightarrow> bool" where
  "renamed_ref r s s' n' n =
     (fst n' = MaybeNewName r (fst n) \<and> snd n' < fresh s' \<and> cls s' (snd n') = cls s (snd n))"

text \<open>
  The index of a bundle is sound: when present, it holds exactly the class references
  that a full traversal of the tree finds.
\<close>

definition index_sound :: "SerializableAst \<Rightarrow> bool" where
  "index_sound b =
     (case class_type_nodes b of None \<Rightarrow> True | Some ns \<Rightarrow> set ns = set (class_types (ast b)))"

text \<open>
  The external resolution of the class reference \<open>n\<close> returns a node that is not \<open>n\<close>
  itself.
\<close>

definition restructures :: "module_map \<Rightarrow> string option \<Rightarrow> class_type \<Rightarrow> bool" where
  "restructures mm self_name n =
     (\<exists>s n' s'. VisitClassType_lookup mm self_name n s = Inr (n', s') \<and>
        n' \<noteq> ClassType (fst n) (snd n))"

text \<open>
  The class reference \<open>n\<close> names another module than \<open>self_name\<close>, and the module map
  holds no class and no alias under its name.
\<close>

definition unresolved :: "module_map \<Rightarrow> string option \<Rightarrow> class_type \<Rightarrow> bool" where
  "unresolved mm self_name n = (case rpartition (fst n) ''.'' of (module_name, dot, x) \<Rightarrow>
     dot \<noteq> [] \<and> Some module_name \<noteq> self_name \<and>
     (case mm module_name of
        None \<Rightarrow> True
      | Some m \<Rightarrow> (case Lookup m (fst n) of
                    Some (Class cn ps ms cs) \<Rightarrow> False
                  | Some (Alias an t) \<Rightarrow> False
                  | _ \<Rightarrow> True)))"

text \<open>The class that local resolution with the map \<open>mm\<close> assigns to a class reference.\<close>

definition local_target :: "module_map \<Rightarrow> class_type \<Rightarrow> node option" where
  "local_target mm n = (case rpartition (fst n) ''.'' of (module_name, dot, x) \<Rightarrow>
     (case mm module_name of
        None \<Rightarrow> None
      | Some m \<Rightarrow> (case Lookup m (fst n) of
                    Some (Class cn ps ms cs) \<Rightarrow> Some (Class cn ps ms cs)
                  | _ \<Rightarrow> None)))"

text \<open>The map that \<open>ProcessAst\<close> hands to local resolution of the tree \<open>u\<close>.\<close>

definition local_map :: "node \<Rightarrow> module_map" where
  "local_map u = [[] \<mapsto> u, node_name u \<mapsto> u]"

text \<open>
  The class reference \<open>n\<close> of the tree \<open>u\<close> resolves to a class: in the module map when
  it names another module, in \<open>u\<close> when it has no module part or names the module of \<open>u\<close>.
\<close>

definition resolvable :: "module_map \<Rightarrow> node \<Rightarrow> class_type \<Rightarrow> bool" where
  "resolvable mm u n = (case rpartition (fst n) ''.'' of (module_name, dot, x) \<Rightarrow>
     if dot = [] \<or> module_name = node_name u then local_target (local_map u) n \<noteq> None
     else (case mm module_name of
             None \<Rightarrow> False
           | Some m \<Rightarrow> (case Lookup m (fst n) of
                         Some (Class cn ps ms cs) \<Rightarrow> True
                       | _ \<Rightarrow> False)))"

text \<open>Class references with the same address have the same name: they are one object.\<close>

definition one_name_per_object :: "class_type list \<Rightarrow> bool" where
  "one_name_per_object ns = list_all (\<lambda>n. list_all (\<lambda>n'. snd n' = snd n \<longrightarrow> fst n' = fst n) ns) ns"

text \<open>The store that holds no pointer, with three addresses in use.\<close>

definition s_empty :: store where
  "s_empty = \<lparr>cls = (\<lambda>p. None), fresh = 3\<rparr>"

section \<open>Basic lemmas\<close>

declare Visit.simps [simp del]

lemma bindE_Inl [simp]: "bindE (Inl e) f = Inl e"
  by (simp add: bindE_def)

lemma bindE_Inr [simp]: "bindE (Inr x) f = f x"
  by (simp add: bindE_def)

lemma VisitList_length:
  "VisitList v xs s = Inr (xs', s') \<Longrightarrow> length xs' = length xs"
  by (induction xs arbitrary: s xs' s') (auto split: sum.splits prod.splits)

lemma node_children_induct:
  assumes "\<And>n. (\<And>c. c \<in> set (children n) \<Longrightarrow> P c) \<Longrightarrow> P n"
  shows "P n"
  by (induction n; rule assms; auto)

lemma rebuild_children [simp]: "rebuild n (children n) = n"
  by (cases n) simp_all

lemma class_types_list_append [simp]:
  "class_types_list (xs @ ys) = class_types_list xs @ class_types_list ys"
  by (induction xs) simp_all

lemma class_types_children:
  "class_types n = own_class_types n @ class_types_list (children n)"
  by (cases n) (simp_all add: own_class_types_def)

lemma class_types_list_take_drop:
  "class_types_list (take k xs) @ class_types_list (drop k xs) = class_types_list xs"
  "class_types_list (take k xs) @ class_types_list (drop k xs) @ ys = class_types_list xs @ ys"
  by (simp_all flip: class_types_list_append append_assoc)

lemma class_types_rebuild:
  assumes "length xs = length (children n)"
  shows "class_types (rebuild n xs) = own_class_types n @ class_types_list xs"
proof (cases n)
  case (GenericType b ps)
  then show ?thesis using assms by (cases xs) (simp_all add: own_class_types_def)
next
  case (Signature ps r)
  then show ?thesis using assms by (cases xs rule: rev_cases) (simp_all add: own_class_types_def)
next
  case (Constant nm t)
  then show ?thesis using assms by (cases xs) (simp_all add: own_class_types_def)
next
  case (Alias nm t)
  then show ?thesis using assms by (cases xs) (simp_all add: own_class_types_def)
qed (use assms in \<open>simp_all add: own_class_types_def class_types_list_take_drop del: drop_drop\<close>)

lemma Visit_on_ClassType_list:
  assumes "\<And>c s. c \<in> set xs \<Longrightarrow> Visit v c s = Inr (c, fold h (class_types c) s)"
  shows "VisitList v xs s = Inr (xs, fold h (class_types_list xs) s)"
  using assms
proof (induction xs arbitrary: s)
  case Nil
  show ?case by simp
next
  case (Cons a xs)
  have "Visit v a s = Inr (a, fold h (class_types a) s)"
    using Cons.prems by simp
  moreover have "VisitList v xs (fold h (class_types a) s)
       = Inr (xs, fold h (class_types_list xs) (fold h (class_types a) s))"
    using Cons.IH Cons.prems by simp
  ultimately show ?case by simp
qed

lemma Visit_on_ClassType:
  assumes "Enter v = on_ClassType h" "VisitNode v = no_Visit"
  shows "Visit v n s = Inr (n, fold h (class_types n) s)"
proof (induction n arbitrary: s rule: node_children_induct)
  case (1 n)
  have "VisitList v (children n) (Enter v n s) =
          Inr (children n, fold h (class_types_list (children n)) (Enter v n s))"
    by (rule Visit_on_ClassType_list) (rule 1)
  moreover have "Enter v n s = fold h (own_class_types n) s"
    by (cases n) (simp_all add: assms on_ClassType_def own_class_types_def)
  ultimately show ?case
    by (simp add: Visit.simps [of v n] assms no_Visit_def class_types_children [of n])
qed


lemmas eval_defs = StoreAst_def ProcessAst_def LookupClassReferences_def FillLocalReferences_def
  EnsureAstName_def RenameModuleVisitor_def rename_visitor_def CollectDependencies_def
  ClearClassPointers_def FindClassTypesVisitor_def LookupExternalTypes_def FillInLocalPointers_def
  on_ClassType_def no_Enter_def no_Visit_def EnterClassType_find_def EnterClassType_deps_def
  EnterClassType_clear_def EnterClassType_fill_def VisitClassType_lookup_def VisitNode_lookup_def
  VisitClassType_rename_def VisitTypeDeclUnit_def VisitTypeParameter_def ReplaceModuleName_def
  MaybeNewName_def new_ClassType_def set_cls_def endswith_def rsplit1_head_def rpartition_def
  unrestorable_def repr_def suffix_def Visit.simps Let_def

section \<open>The renamer\<close>

lemma Visit_InrD:
  assumes "Visit v n s = Inr (n', s')"
  obtains xs s1 where "VisitList v (children n) (Enter v n s) = Inr (xs, s1)"
    and "length xs = length (children n)" and "VisitNode v (rebuild n xs) s1 = Inr (n', s')"
  using assms
  by (auto simp: Visit.simps [of v n] split: sum.splits prod.splits dest: VisitList_length)

lemma VisitList_Cons_InrD:
  assumes "VisitList v (a # as) s = Inr (ys, s')"
  obtains a' s1 as' where "Visit v a s = Inr (a', s1)" and "VisitList v as s1 = Inr (as', s')"
    and "ys = a' # as'"
  using assms by (auto split: sum.splits prod.splits)

lemma name_fields_list_append [simp]:
  "name_fields_list (xs @ ys) = name_fields_list xs @ name_fields_list ys"
  by (induction xs) simp_all

lemma name_fields_children:
  "name_fields n = own_names n @ name_fields_list (children n)"
  by (cases n) simp_all

lemma children_rebuild:
  assumes "length xs = length (children n)"
  shows "children (rebuild n xs) = xs"
proof (cases n)
  case (GenericType b ps)
  then show ?thesis using assms by (cases xs) simp_all
next
  case (Signature ps r)
  then show ?thesis using assms by (cases xs rule: rev_cases) simp_all
next
  case (Constant nm t)
  then show ?thesis using assms by (cases xs) simp_all
next
  case (Alias nm t)
  then show ?thesis using assms by (cases xs) simp_all
qed (use assms in \<open>simp_all del: drop_drop\<close>)

lemma own_names_rebuild [simp]: "own_names (rebuild n xs) = own_names n"
  by (cases n) simp_all

lemma own_class_types_rebuild [simp]: "own_class_types (rebuild n xs) = own_class_types n"
  by (cases n) (simp_all add: own_class_types_def)

lemma partition_prefix: "sep \<noteq> [] \<Longrightarrow> partition_str (sep @ x) sep = ([], sep, x)"
  by (cases sep) simp_all

lemma partition_not_prefix:
  "\<not> prefix sep nm \<Longrightarrow> partition_str nm sep = (b, m, a) \<Longrightarrow> b \<noteq> [] \<or> m = []"
  by (cases nm) (auto split: prod.splits)

lemma MaybeNewName_direct:
  "r_old r \<noteq> [] \<Longrightarrow> CHR ''.'' \<notin> set x \<Longrightarrow> MaybeNewName r (r_old r @ x) = r_new r @ x"
  by (simp add: MaybeNewName_def partition_prefix)

lemma MaybeNewName_nested:
  "r_old r \<noteq> [] \<Longrightarrow> CHR ''.'' \<in> set x \<Longrightarrow> MaybeNewName r (r_old r @ x) = r_old r @ x"
  by (simp add: MaybeNewName_def partition_prefix)

lemma MaybeNewName_other:
  "\<not> prefix (r_old r) nm \<Longrightarrow> MaybeNewName r nm = nm"
  using partition_not_prefix [of "r_old r" nm]
  by (auto simp: MaybeNewName_def split: prod.splits)

lemma RenameModuleVisitor_Inr:
  "RenameModuleVisitor m1 m2 = Inr r \<Longrightarrow>
     r_old r = m1 @ ''.'' \<and> r_module_name r = m2 \<and> r_new r = (if m2 = [] then [] else m2 @ ''.'')"
  by (auto simp: RenameModuleVisitor_def split: if_splits)

lemma rename_visitor_simps [simp]:
  "Enter (rename_visitor r) n s = s" "VisitNode (rename_visitor r) = VisitNode_rename r"
  by (simp_all add: rename_visitor_def no_Enter_def)

lemmas rename_defs = ReplaceModuleName_def Let_def
  VisitClassType_rename_def new_ClassType_def VisitTypeParameter_def VisitTypeDeclUnit_def

lemma VisitNode_rename_total: "\<exists>n' s'. VisitNode_rename r m s = Inr (n', s')"
  by (cases m) (simp_all add: rename_defs)

lemma VisitNode_rename_names:
  "VisitNode_rename r m s = Inr (n', s') \<Longrightarrow>
     own_names n' = map (MaybeNewName r) (own_names m) \<and> children n' = children m"
  by (cases m) (auto simp: rename_defs split: option.splits if_splits)

lemma rename_fields_list:
  assumes "\<And>c s c' s'. c \<in> set xs \<Longrightarrow> Visit (rename_visitor r) c s = Inr (c', s') \<Longrightarrow>
      name_fields c' = map (MaybeNewName r) (name_fields c)"
    and "VisitList (rename_visitor r) xs s = Inr (xs', s')"
  shows "name_fields_list xs' = map (MaybeNewName r) (name_fields_list xs)"
  using assms
proof (induction xs arbitrary: s xs' s')
  case Nil
  then show ?case by simp
next
  case (Cons a xs)
  from Cons.prems(2) obtain a' s1 as' where
    a: "Visit (rename_visitor r) a s = Inr (a', s1)" and
    as: "VisitList (rename_visitor r) xs s1 = Inr (as', s')" and ys: "xs' = a' # as'"
    by (rule VisitList_Cons_InrD)
  have "name_fields a' = map (MaybeNewName r) (name_fields a)"
    using Cons.prems(1) a by simp
  moreover have "name_fields_list as' = map (MaybeNewName r) (name_fields_list xs)"
    using Cons.IH [OF _ as] Cons.prems(1) by simp
  ultimately show ?case by (simp add: ys)
qed

lemma rename_fields:
  "Visit (rename_visitor r) n s = Inr (n', s') \<Longrightarrow>
     name_fields n' = map (MaybeNewName r) (name_fields n)"
proof (induction n arbitrary: s n' s' rule: node_children_induct)
  case (1 n)
  from 1(2) obtain xs s1 where
    xs: "VisitList (rename_visitor r) (children n) s = Inr (xs, s1)" and
    len: "length xs = length (children n)" and
    hook: "VisitNode_rename r (rebuild n xs) s1 = Inr (n', s')"
    by (rule Visit_InrD) simp_all
  have "name_fields_list xs = map (MaybeNewName r) (name_fields_list (children n))"
    using rename_fields_list [OF _ xs] 1(1) by blast
  moreover have "name_fields n' = map (MaybeNewName r) (own_names n) @ name_fields_list xs"
    using VisitNode_rename_names [OF hook] len
    by (simp add: name_fields_children [of n'] children_rebuild)
  ultimately show ?case
    by (simp add: name_fields_children [of n])
qed

lemma rename_total_list:
  assumes "\<And>c s. c \<in> set xs \<Longrightarrow> \<exists>c' s'. Visit (rename_visitor r) c s = Inr (c', s')"
  shows "\<exists>xs' s'. VisitList (rename_visitor r) xs s = Inr (xs', s')"
  using assms
proof (induction xs arbitrary: s)
  case Nil
  then show ?case by simp
next
  case (Cons a xs)
  obtain a' s1 where a: "Visit (rename_visitor r) a s = Inr (a', s1)"
    using Cons.prems [of a s] by auto
  obtain as' s2 where "VisitList (rename_visitor r) xs s1 = Inr (as', s2)"
    using Cons.IH [of s1] Cons.prems by auto
  with a show ?case by simp
qed

lemma rename_total: "\<exists>n' s'. Visit (rename_visitor r) n s = Inr (n', s')"
proof (induction n arbitrary: s rule: node_children_induct)
  case (1 n)
  obtain xs s1 where xs: "VisitList (rename_visitor r) (children n) s = Inr (xs, s1)"
    using rename_total_list [of "children n" r s] 1 by blast
  obtain n' s' where "VisitNode_rename r (rebuild n xs) s1 = Inr (n', s')"
    using VisitNode_rename_total by blast
  with xs show ?case by (simp add: Visit.simps [of _ n])
qed

lemma extends_refl [simp]: "extends s s"
  by (simp add: extends_def)

lemma extends_trans: "extends s s1 \<Longrightarrow> extends s1 s2 \<Longrightarrow> extends s s2"
  by (auto simp: extends_def)

lemma allocated_append [simp]:
  "allocated s (xs @ ys) = (allocated s xs \<and> allocated s ys)"
  by (simp add: allocated_def)

lemma allocated_mono: "allocated s ns \<Longrightarrow> extends s s' \<Longrightarrow> allocated s' ns"
  by (auto simp: allocated_def extends_def list_all_iff)

lemma renamed_lift:
  "list_all2 (renamed_ref r s s1) xs ys \<Longrightarrow> extends s1 s2 \<Longrightarrow>
     list_all2 (renamed_ref r s s2) xs ys"
  by (erule list_all2_mono) (auto simp: renamed_ref_def extends_def)

lemma renamed_pre:
  "list_all2 (renamed_ref r s1 s2) xs ys \<Longrightarrow> extends s s1 \<Longrightarrow> allocated s ys \<Longrightarrow>
     list_all2 (renamed_ref r s s2) xs ys"
  by (induction xs ys rule: list_all2_induct)
     (auto simp: renamed_ref_def extends_def allocated_def)

lemma VisitNode_rename_extends:
  "VisitNode_rename r m s = Inr (n', s') \<Longrightarrow> extends s s'"
  by (cases m) (auto simp: rename_defs extends_def split: if_splits)

lemma VisitNode_rename_refs:
  "VisitNode_rename r m s = Inr (n', s') \<Longrightarrow> allocated s (own_class_types m) \<Longrightarrow>
     list_all2 (renamed_ref r s s') (own_class_types n') (own_class_types m)"
  by (cases m)
     (auto simp: rename_defs own_class_types_def renamed_ref_def allocated_def split: if_splits)

lemma rename_extends_list:
  assumes "\<And>c s c' s'. c \<in> set xs \<Longrightarrow> Visit (rename_visitor r) c s = Inr (c', s') \<Longrightarrow>
      extends s s'"
    and "VisitList (rename_visitor r) xs s = Inr (xs', s')"
  shows "extends s s'"
  using assms
proof (induction xs arbitrary: s xs' s')
  case Nil
  then show ?case by simp
next
  case (Cons a xs)
  from Cons.prems(2) obtain a' s1 as' where
    a: "Visit (rename_visitor r) a s = Inr (a', s1)" and
    as: "VisitList (rename_visitor r) xs s1 = Inr (as', s')"
    by (rule VisitList_Cons_InrD)
  have "extends s s1" by (rule Cons.prems(1) [OF _ a]) simp
  moreover have "extends s1 s'"
    by (rule Cons.IH [OF _ as]) (rule Cons.prems(1) [rotated], assumption, simp)
  ultimately show ?case by (rule extends_trans)
qed

lemma rename_extends:
  "Visit (rename_visitor r) n s = Inr (n', s') \<Longrightarrow> extends s s'"
proof (induction n arbitrary: s n' s' rule: node_children_induct)
  case (1 n)
  from 1(2) obtain xs s1 where
    xs: "VisitList (rename_visitor r) (children n) s = Inr (xs, s1)" and
    hook: "VisitNode_rename r (rebuild n xs) s1 = Inr (n', s')"
    by (rule Visit_InrD) simp_all
  have "extends s s1" using rename_extends_list [OF _ xs] 1(1) by blast
  then show ?case using VisitNode_rename_extends [OF hook] by (rule extends_trans)
qed

lemma rename_refs_list:
  assumes "\<And>c s c' s'. c \<in> set xs \<Longrightarrow> Visit (rename_visitor r) c s = Inr (c', s') \<Longrightarrow>
      allocated s (class_types c) \<Longrightarrow>
      list_all2 (renamed_ref r s s') (class_types c') (class_types c)"
    and "VisitList (rename_visitor r) xs s = Inr (xs', s')"
    and "allocated s (class_types_list xs)"
  shows "list_all2 (renamed_ref r s s') (class_types_list xs') (class_types_list xs)"
  using assms
proof (induction xs arbitrary: s xs' s')
  case Nil
  then show ?case by simp
next
  case (Cons a xs)
  from Cons.prems(2) obtain a' s1 as' where
    a: "Visit (rename_visitor r) a s = Inr (a', s1)" and
    as: "VisitList (rename_visitor r) xs s1 = Inr (as', s')" and ys: "xs' = a' # as'"
    by (rule VisitList_Cons_InrD)
  have e1: "extends s s1" using a by (rule rename_extends)
  have e2: "extends s1 s'" using rename_extends_list [OF _ as] rename_extends by blast
  have al: "allocated s (class_types a)" "allocated s (class_types_list xs)"
    using Cons.prems(3) by simp_all
  have "list_all2 (renamed_ref r s s1) (class_types a') (class_types a)"
    by (rule Cons.prems(1) [OF _ a al(1)]) simp
  then have h: "list_all2 (renamed_ref r s s') (class_types a') (class_types a)"
    using e2 by (rule renamed_lift)
  have "list_all2 (renamed_ref r s1 s') (class_types_list as') (class_types_list xs)"
    by (rule Cons.IH [OF _ as allocated_mono [OF al(2) e1]])
       (rule Cons.prems(1) [rotated], assumption, assumption, simp)
  then have t: "list_all2 (renamed_ref r s s') (class_types_list as') (class_types_list xs)"
    using e1 al(2) by (rule renamed_pre)
  show ?case using h t by (simp add: ys list_all2_appendI)
qed

lemma rename_refs:
  "Visit (rename_visitor r) n s = Inr (n', s') \<Longrightarrow> allocated s (class_types n) \<Longrightarrow>
     list_all2 (renamed_ref r s s') (class_types n') (class_types n)"
proof (induction n arbitrary: s n' s' rule: node_children_induct)
  case (1 n)
  from 1(2) obtain xs s1 where
    xs: "VisitList (rename_visitor r) (children n) s = Inr (xs, s1)" and
    len: "length xs = length (children n)" and
    hook: "VisitNode_rename r (rebuild n xs) s1 = Inr (n', s')"
    by (rule Visit_InrD) simp_all
  have al: "allocated s (own_class_types n)" "allocated s (class_types_list (children n))"
    using 1(3) by (simp_all add: class_types_children [of n])
  have e1: "extends s s1" using rename_extends_list [OF _ xs] rename_extends by blast
  have e2: "extends s1 s'" using hook by (rule VisitNode_rename_extends)
  have "list_all2 (renamed_ref r s s1) (class_types_list xs) (class_types_list (children n))"
    using rename_refs_list [OF _ xs al(2)] 1(1) by blast
  then have c: "list_all2 (renamed_ref r s s') (class_types_list xs) (class_types_list (children n))"
    using e2 by (rule renamed_lift)
  have "list_all2 (renamed_ref r s1 s') (own_class_types n') (own_class_types n)"
    using VisitNode_rename_refs [OF hook] allocated_mono [OF al(1) e1] by simp
  then have o: "list_all2 (renamed_ref r s s') (own_class_types n') (own_class_types n)"
    using e1 al(1) by (rule renamed_pre)
  have "children n' = xs"
    using VisitNode_rename_names [OF hook] len by (simp add: children_rebuild)
  then show ?case using o c
    by (simp add: class_types_children [of n] class_types_children [of n'] list_all2_appendI)
qed

section \<open>Storing\<close>

lemma Visit_CollectDependencies [simp]:
  "Visit CollectDependencies t m = Inr (t, fold EnterClassType_deps (class_types t) m)"
  by (rule Visit_on_ClassType) (simp_all add: CollectDependencies_def)

lemma Visit_ClearClassPointers [simp]:
  "Visit ClearClassPointers t s = Inr (t, fold EnterClassType_clear (class_types t) s)"
  by (rule Visit_on_ClassType) (simp_all add: ClearClassPointers_def)

lemma Visit_FillInLocalPointers [simp]:
  "Visit (FillInLocalPointers mm) t s = Inr (t, fold (EnterClassType_fill mm) (class_types t) s)"
  by (rule Visit_on_ClassType) (simp_all add: FillInLocalPointers_def)

lemma fold_EnterClassType_find: "fold EnterClassType_find ns acc = acc @ ns"
  by (induction ns arbitrary: acc) (simp_all add: EnterClassType_find_def)

lemma Visit_FindClassTypesVisitor [simp]:
  "Visit FindClassTypesVisitor t acc = Inr (t, acc @ class_types t)"
  using Visit_on_ClassType [of FindClassTypesVisitor EnterClassType_find t acc]
  by (simp add: FindClassTypesVisitor_def fold_EnterClassType_find)

lemma cls_fold_clear:
  "cls (fold EnterClassType_clear ns s) p = (if p \<in> snd ` set ns then None else cls s p)"
  by (induction ns arbitrary: s) (auto simp: EnterClassType_clear_def set_cls_def)

lemma StoreAst_InrD:
  assumes "StoreAst t s = Inr (b, s')"
  obtains t1 s1 where
    "if endswith (node_name t) ''.__init__''
     then \<exists>r. RenameModuleVisitor (node_name t) (rsplit1_head (node_name t) ''.__init__'') = Inr r
              \<and> Visit (rename_visitor r) t s = Inr (t1, s1)
     else t1 = t \<and> s1 = s"
    and "b = \<lparr>ast = t1,
              dependencies = sorted_list_of_set (fold EnterClassType_deps (class_types t1) {}),
              class_type_nodes = Some (sort_key fst (class_types t1))\<rparr>"
    and "s' = fold EnterClassType_clear (class_types t1) s1"
  using assms
  by (auto simp: StoreAst_def bindE_def split: sum.splits prod.splits if_splits)

lemma StoreAst_dependencies_sorted:
  "StoreAst t s = Inr (b, s') \<Longrightarrow> sorted (dependencies b) \<and> distinct (dependencies b)"
  by (auto simp: StoreAst_def bindE_def split: sum.splits prod.splits if_splits)

section \<open>The index of a bundle\<close>

lemma VisitClassType_lookup_node_indep:
  "VisitClassType_lookup mm sn n s = Inr (n', s') \<Longrightarrow>
   VisitClassType_lookup mm sn n s0 = Inr (n'', s0') \<Longrightarrow> n'' = n'"
  by (auto simp: VisitClassType_lookup_def split: prod.splits if_splits option.splits node.splits)

lemma lookup_nodes_Inr:
  "lookup_nodes mm sn ns b s = Inr (b1, s1) \<Longrightarrow>
     (b1 = b \<and> (\<forall>n\<in>set ns. \<not> restructures mm sn n)) \<or>
     (b1 = b\<lparr>class_type_nodes := None\<rparr> \<and> (\<exists>n\<in>set ns. restructures mm sn n))"
proof (induction ns arbitrary: s)
  case Nil
  then show ?case by simp
next
  case (Cons n ns)
  from Cons.prems obtain n' s' where
    v: "VisitClassType_lookup mm sn n s = Inr (n', s')"
    by (auto split: sum.splits)
  show ?case
  proof (cases "n' = ClassType (fst n) (snd n)")
    case True
    then have "lookup_nodes mm sn ns b s' = Inr (b1, s1)"
      using Cons.prems v by simp
    from Cons.IH [OF this] have
      "(b1 = b \<and> (\<forall>n\<in>set ns. \<not> restructures mm sn n)) \<or>
       (b1 = b\<lparr>class_type_nodes := None\<rparr> \<and> (\<exists>n\<in>set ns. restructures mm sn n))" .
    moreover have "\<not> restructures mm sn n"
    proof
      assume "restructures mm sn n"
      then obtain s0 n0 s0' where
        0: "VisitClassType_lookup mm sn n s0 = Inr (n0, s0')" "n0 \<noteq> ClassType (fst n) (snd n)"
        unfolding restructures_def by blast
      from VisitClassType_lookup_node_indep [OF v 0(1)] True 0(2) show False by simp
    qed
    ultimately show ?thesis by auto
  next
    case False
    then have "b1 = b\<lparr>class_type_nodes := None\<rparr>"
      using Cons.prems v by simp
    moreover have "restructures mm sn n"
      using v False by (auto simp: restructures_def)
    ultimately show ?thesis by auto
  qed
qed

lemma LookupClassReferences_InrD:
  assumes "LookupClassReferences b mm sn s = Inr (b', s')"
  shows "(b' = b \<and> class_type_nodes b \<noteq> None \<and>
            (\<forall>n\<in>set (the (class_type_nodes b)). \<not> restructures mm sn n)) \<or>
         (class_type_nodes b' = None \<and> dependencies b' = dependencies b \<and>
            (class_type_nodes b = None \<or>
             (\<exists>n\<in>set (the (class_type_nodes b)). restructures mm sn n)) \<and>
            (\<exists>s1. Visit (LookupExternalTypes mm sn) (ast b) s1 = Inr (ast b', s')))"
proof (cases "class_type_nodes b")
  case None
  then show ?thesis using assms
    by (auto simp: LookupClassReferences_def split: sum.splits prod.splits)
next
  case (Some ns)
  show ?thesis
  proof (cases ns)
    case Nil
    then show ?thesis using assms Some
      by (auto simp: LookupClassReferences_def)
  next
    case (Cons n ns')
    from assms Some Cons obtain b1 s1 where
      l: "lookup_nodes mm sn ns b s = Inr (b1, s1)"
      by (auto simp: LookupClassReferences_def bindE_def Let_def simp del: lookup_nodes.simps
            split: sum.splits)
    from lookup_nodes_Inr [OF l] show ?thesis
    proof
      assume k: "b1 = b \<and> (\<forall>n\<in>set ns. \<not> restructures mm sn n)"
      then show ?thesis using assms Some Cons l
        by (auto simp: LookupClassReferences_def Let_def simp del: lookup_nodes.simps)
    next
      assume k: "b1 = b\<lparr>class_type_nodes := None\<rparr> \<and> (\<exists>n\<in>set ns. restructures mm sn n)"
      then show ?thesis using assms Some Cons l
        by (auto simp: LookupClassReferences_def Let_def simp del: lookup_nodes.simps
              split: sum.splits prod.splits)
    qed
  qed
qed

lemma LookupClassReferences_index_sound:
  "LookupClassReferences b mm sn s = Inr (b', s') \<Longrightarrow> index_sound b \<Longrightarrow> index_sound b'"
  by (drule LookupClassReferences_InrD) (auto simp: index_sound_def)

lemma StoreAst_index:
  assumes "StoreAst t s = Inr (b, s')"
  shows "class_type_nodes b = Some (sort_key fst (class_types (ast b)))"
  using assms by (rule StoreAst_InrD) simp

lemma EnsureAstName_index:
  "EnsureAstName b nm s = Inr (b', s') \<Longrightarrow>
     (nm = node_name (ast b) \<and> b' = b) \<or> (nm \<noteq> node_name (ast b) \<and> class_type_nodes b' = None)"
  by (auto simp: EnsureAstName_def Let_def bindE_def split: if_splits sum.splits prod.splits)

section \<open>Local resolution\<close>

lemma EnterClassType_fill_eq:
  "EnterClassType_fill mm n s =
     (case local_target mm n of None \<Rightarrow> s | Some c \<Rightarrow> set_cls (snd n) (Some c) s)"
  by (cases n)
     (auto simp: EnterClassType_fill_def local_target_def
        split: prod.splits option.splits node.splits)

lemma cls_fill:
  "cls (EnterClassType_fill mm n s) p =
     (if p = snd n \<and> local_target mm n \<noteq> None then local_target mm n else cls s p)"
  by (auto simp: EnterClassType_fill_eq set_cls_def split: option.splits)

lemma fold_fill_nonnull:
  "cls s p \<noteq> None \<Longrightarrow> cls (fold (EnterClassType_fill mm) ns s) p \<noteq> None"
  by (induction ns arbitrary: s) (auto simp: cls_fill)

lemma fold_fill_cell:
  "cls (fold (EnterClassType_fill mm) ns s) p = cls s p \<or>
   (\<exists>n\<in>set ns. snd n = p \<and> local_target mm n \<noteq> None \<and>
      cls (fold (EnterClassType_fill mm) ns s) p = local_target mm n)"
proof (induction ns arbitrary: s)
  case Nil
  then show ?case by simp
next
  case (Cons n ns)
  from Cons.IH [of "EnterClassType_fill mm n s"] show ?case
    by (auto simp: cls_fill split: if_splits)
qed

lemma fold_fill_stable:
  "cls s p = Some c \<Longrightarrow> \<forall>n\<in>set ns. snd n = p \<longrightarrow> local_target mm n = Some c \<or> local_target mm n = None \<Longrightarrow>
     cls (fold (EnterClassType_fill mm) ns s) p = Some c"
  by (induction ns arbitrary: s) (auto simp: cls_fill)

lemma fold_fill_target:
  assumes "n \<in> set ns" "local_target mm n = Some c"
    and "\<forall>n'\<in>set ns. snd n' = snd n \<longrightarrow> local_target mm n' = Some c \<or> local_target mm n' = None"
  shows "cls (fold (EnterClassType_fill mm) ns s) (snd n) = Some c"
proof -
  from assms(1) obtain xs ys where ns: "ns = xs @ n # ys"
    by (auto simp: in_set_conv_decomp)
  have "cls (EnterClassType_fill mm n (fold (EnterClassType_fill mm) xs s)) (snd n) = Some c"
    by (simp add: cls_fill assms(2))
  then show ?thesis
    using assms(3) by (simp add: ns fold_fill_stable)
qed

lemma fill_nodes_Inr:
  "fill_nodes mm ns s = Inr s' \<Longrightarrow>
     s' = fold (EnterClassType_fill mm) ns s \<and> (\<forall>n\<in>set ns. cls s' (snd n) \<noteq> None)"
proof (induction ns arbitrary: s)
  case Nil
  then show ?case by simp
next
  case (Cons n ns)
  let ?s = "EnterClassType_fill mm n s"
  from Cons.prems have nn: "cls ?s (snd n) \<noteq> None" and r: "fill_nodes mm ns ?s = Inr s'"
    by (auto simp: Let_def split: if_splits)
  from Cons.IH [OF r] have
    "s' = fold (EnterClassType_fill mm) ns ?s" "\<forall>n\<in>set ns. cls s' (snd n) \<noteq> None"
    by blast+
  then show ?case using fold_fill_nonnull [OF nn, of mm ns] by auto
qed

lemma fill_nodes_Inl:
  "fill_nodes mm ns s = Inl e \<Longrightarrow>
     \<exists>n\<in>set ns. e = AssertionError (''This should not happen: '' @ fst n) \<and>
        local_target mm n = None"
proof (induction ns arbitrary: s)
  case Nil
  then show ?case by simp
next
  case (Cons n ns)
  show ?case
  proof (cases "cls (EnterClassType_fill mm n s) (snd n) = None")
    case True
    then have "e = AssertionError (''This should not happen: '' @ fst n)"
      using Cons.prems by (simp add: Let_def)
    moreover have "local_target mm n = None"
      using True by (auto simp: cls_fill split: if_splits)
    ultimately show ?thesis by simp
  next
    case False
    then have "fill_nodes mm ns (EnterClassType_fill mm n s) = Inl e"
      using Cons.prems by (auto simp: Let_def split: if_splits)
    from Cons.IH [OF this] show ?thesis by auto
  qed
qed

lemma fill_nodes_raises:
  assumes "n \<in> set ns" "cls s (snd n) = None"
    and "\<forall>n'\<in>set ns. snd n' = snd n \<longrightarrow> local_target mm n' = None"
  shows "\<exists>e. fill_nodes mm ns s = Inl e"
  using assms
proof (induction ns arbitrary: s)
  case Nil
  then show ?case by simp
next
  case (Cons x ns)
  show ?case
  proof (cases "cls (EnterClassType_fill mm x s) (snd x) = None")
    case True
    then show ?thesis by (simp add: Let_def)
  next
    case False
    have "x \<noteq> n"
      using False Cons.prems(2,3) by (auto simp: cls_fill)
    then have 1: "n \<in> set ns" using Cons.prems(1) by simp
    have 2: "cls (EnterClassType_fill mm x s) (snd n) = None"
      using Cons.prems(2,3) by (auto simp: cls_fill)
    have "\<exists>e. fill_nodes mm ns (EnterClassType_fill mm x s) = Inl e"
      using Cons.IH [OF 1 2] Cons.prems(3) by simp
    then show ?thesis using False by (simp add: Let_def)
  qed
qed

lemma FillLocalReferences_cases:
  "FillLocalReferences b mm s =
     (case class_type_nodes b of
        Some (n # ns) \<Rightarrow> fill_nodes mm (n # ns) s
      | _ \<Rightarrow> Inr (fold (EnterClassType_fill mm) (class_types (ast b)) s))"
  by (simp add: FillLocalReferences_def split: option.splits list.splits)

lemma fold_fill_filled:
  assumes "n \<in> set ns" "local_target mm n \<noteq> None"
  shows "cls (fold (EnterClassType_fill mm) ns s) (snd n) \<noteq> None"
proof -
  from assms(1) obtain xs ys where ns: "ns = xs @ n # ys"
    by (auto simp: in_set_conv_decomp)
  have "cls (EnterClassType_fill mm n (fold (EnterClassType_fill mm) xs s)) (snd n) \<noteq> None"
    using assms(2) by (simp add: cls_fill)
  then show ?thesis
    by (simp add: ns fold_fill_nonnull)
qed

section \<open>Loading\<close>

lemma local_target_name:
  "fst n' = fst n \<Longrightarrow> local_target mm n' = local_target mm n"
  by (cases n; cases n') (auto simp: local_target_def split: prod.splits option.splits)

lemma ProcessAst_InrD:
  assumes "ProcessAst b mm s = Inr (t', s')"
  obtains b1 s1 where "LookupClassReferences b mm (Some (node_name (ast b))) s = Inr (b1, s1)"
    and "t' = ast b1" and "FillLocalReferences b1 (local_map (ast b1)) s1 = Inr s'"
  using assms
  by (auto simp: ProcessAst_def local_map_def bindE_def split: sum.splits prod.splits)

lemma FillLocalReferences_fold:
  assumes "FillLocalReferences b mm s = Inr s'" "index_sound b"
  obtains ns where "s' = fold (EnterClassType_fill mm) ns s"
    and "set ns = set (class_types (ast b))"
proof (cases "class_type_nodes b")
  case None
  then have "s' = fold (EnterClassType_fill mm) (class_types (ast b)) s"
    using assms(1) by (simp add: FillLocalReferences_cases)
  then show ?thesis by (rule that) simp
next
  case (Some ns)
  show ?thesis
  proof (cases ns)
    case Nil
    then have e: "class_types (ast b) = []"
      using assms(2) Some by (simp add: index_sound_def)
    then have "s' = fold (EnterClassType_fill mm) (class_types (ast b)) s"
      using assms(1) Some Nil by (simp add: FillLocalReferences_cases)
    then show ?thesis by (rule that) simp
  next
    case (Cons x xs)
    then have "fill_nodes mm ns s = Inr s'"
      using assms(1) Some by (simp add: FillLocalReferences_cases)
    from fill_nodes_Inr [OF this] have "s' = fold (EnterClassType_fill mm) ns s" by simp
    moreover have "set ns = set (class_types (ast b))"
      using assms(2) Some by (simp add: index_sound_def)
    ultimately show ?thesis by (rule that)
  qed
qed

section \<open>References that the module map does not hold\<close>

lemma Visit_InlD:
  assumes "Visit v n s = Inl e"
  shows "VisitList v (children n) (Enter v n s) = Inl e \<or>
     (\<exists>xs s1. VisitList v (children n) (Enter v n s) = Inr (xs, s1) \<and>
        VisitNode v (rebuild n xs) s1 = Inl e)"
  using assms by (auto simp: Visit.simps [of v n] split: sum.splits prod.splits)

lemma VisitList_Cons_InlD:
  assumes "VisitList v (a # as) s = Inl e"
  shows "Visit v a s = Inl e \<or> (\<exists>a' s1. Visit v a s = Inr (a', s1) \<and> VisitList v as s1 = Inl e)"
  using assms by (auto split: sum.splits prod.splits)

lemma LookupExternalTypes_simps [simp]:
  "Enter (LookupExternalTypes mm sn) n s = s"
  "VisitNode (LookupExternalTypes mm sn) = VisitNode_lookup mm sn"
  by (simp_all add: LookupExternalTypes_def no_Enter_def)

lemma VisitClassType_lookup_Inl:
  "VisitClassType_lookup mm sn n s = Inl e \<Longrightarrow> e = KeyError (fst n) \<and> unresolved mm sn n"
  by (cases n)
     (auto simp: VisitClassType_lookup_def unresolved_def
        split: prod.splits if_splits option.splits node.splits)

lemma VisitClassType_lookup_Inr:
  "VisitClassType_lookup mm sn n s = Inr r \<Longrightarrow> \<not> unresolved mm sn n"
  by (cases n)
     (auto simp: VisitClassType_lookup_def unresolved_def
        split: prod.splits if_splits option.splits node.splits)

lemma VisitNode_lookup_Inl:
  "VisitNode_lookup mm sn m s = Inl e \<Longrightarrow>
     \<exists>n\<in>set (own_class_types m). e = KeyError (fst n) \<and> unresolved mm sn n"
  by (cases m) (auto simp: VisitNode_lookup_def own_class_types_def dest: VisitClassType_lookup_Inl)

lemma VisitNode_lookup_Inr:
  "VisitNode_lookup mm sn m s = Inr r \<Longrightarrow> \<forall>n\<in>set (own_class_types m). \<not> unresolved mm sn n"
  by (cases m) (auto simp: VisitNode_lookup_def own_class_types_def dest: VisitClassType_lookup_Inr)

lemma lookup_Inl_list:
  assumes "\<And>c s e. c \<in> set xs \<Longrightarrow> Visit (LookupExternalTypes mm sn) c s = Inl e \<Longrightarrow>
      \<exists>n\<in>set (class_types c). e = KeyError (fst n) \<and> unresolved mm sn n"
    and "VisitList (LookupExternalTypes mm sn) xs s = Inl e"
  shows "\<exists>n\<in>set (class_types_list xs). e = KeyError (fst n) \<and> unresolved mm sn n"
  using assms
proof (induction xs arbitrary: s)
  case Nil
  then show ?case by simp
next
  case (Cons a xs)
  from VisitList_Cons_InlD [OF Cons.prems(2)] show ?case
  proof
    assume "Visit (LookupExternalTypes mm sn) a s = Inl e"
    then have "\<exists>n\<in>set (class_types a). e = KeyError (fst n) \<and> unresolved mm sn n"
      by (rule Cons.prems(1) [rotated]) simp
    then show ?thesis by auto
  next
    assume "\<exists>a' s1. Visit (LookupExternalTypes mm sn) a s = Inr (a', s1) \<and>
        VisitList (LookupExternalTypes mm sn) xs s1 = Inl e"
    then obtain s1 where 1: "VisitList (LookupExternalTypes mm sn) xs s1 = Inl e" by blast
    have "\<exists>n\<in>set (class_types_list xs). e = KeyError (fst n) \<and> unresolved mm sn n"
      by (rule Cons.IH [OF _ 1]) (rule Cons.prems(1) [rotated], assumption, simp)
    then show ?thesis by auto
  qed
qed

lemma lookup_Inl:
  "Visit (LookupExternalTypes mm sn) t s = Inl e \<Longrightarrow>
     \<exists>n\<in>set (class_types t). e = KeyError (fst n) \<and> unresolved mm sn n"
proof (induction t arbitrary: s e rule: node_children_induct)
  case (1 t)
  from Visit_InlD [OF 1(2)] show ?case
  proof
    assume a: "VisitList (LookupExternalTypes mm sn) (children t)
        (Enter (LookupExternalTypes mm sn) t s) = Inl e"
    have "\<exists>n\<in>set (class_types_list (children t)). e = KeyError (fst n) \<and> unresolved mm sn n"
      by (rule lookup_Inl_list [OF _ a]) (rule 1(1))
    then show ?thesis by (auto simp: class_types_children [of t])
  next
    assume "\<exists>xs s1. VisitList (LookupExternalTypes mm sn) (children t)
          (Enter (LookupExternalTypes mm sn) t s) = Inr (xs, s1) \<and>
        VisitNode (LookupExternalTypes mm sn) (rebuild t xs) s1 = Inl e"
    then obtain xs s1 where "VisitNode_lookup mm sn (rebuild t xs) s1 = Inl e" by auto
    from VisitNode_lookup_Inl [OF this] show ?thesis
      by (auto simp: class_types_children [of t])
  qed
qed

lemma lookup_Inr_list:
  assumes "\<And>c s r. c \<in> set xs \<Longrightarrow> Visit (LookupExternalTypes mm sn) c s = Inr r \<Longrightarrow>
      \<forall>n\<in>set (class_types c). \<not> unresolved mm sn n"
    and "VisitList (LookupExternalTypes mm sn) xs s = Inr r"
  shows "\<forall>n\<in>set (class_types_list xs). \<not> unresolved mm sn n"
  using assms
proof (induction xs arbitrary: s r)
  case Nil
  then show ?case by simp
next
  case (Cons a xs)
  obtain ys s' where r: "r = (ys, s')" by (cases r)
  from Cons.prems(2) [unfolded r] obtain a' s1 as' where
    a: "Visit (LookupExternalTypes mm sn) a s = Inr (a', s1)" and
    as: "VisitList (LookupExternalTypes mm sn) xs s1 = Inr (as', s')"
    by (rule VisitList_Cons_InrD)
  have "\<forall>n\<in>set (class_types a). \<not> unresolved mm sn n"
    by (rule Cons.prems(1) [OF _ a]) simp
  moreover have "\<forall>n\<in>set (class_types_list xs). \<not> unresolved mm sn n"
    by (rule Cons.IH [OF _ as]) (rule Cons.prems(1) [rotated], assumption, simp)
  ultimately show ?case by auto
qed

lemma lookup_Inr:
  "Visit (LookupExternalTypes mm sn) t s = Inr r \<Longrightarrow>
     \<forall>n\<in>set (class_types t). \<not> unresolved mm sn n"
proof (induction t arbitrary: s r rule: node_children_induct)
  case (1 t)
  obtain t' s' where r: "r = (t', s')" by (cases r)
  from 1(2) [unfolded r] obtain xs s1 where
    xs: "VisitList (LookupExternalTypes mm sn) (children t) (Enter (LookupExternalTypes mm sn) t s)
           = Inr (xs, s1)" and
    hook: "VisitNode (LookupExternalTypes mm sn) (rebuild t xs) s1 = Inr (t', s')"
    by (rule Visit_InrD)
  have "\<forall>n\<in>set (class_types_list (children t)). \<not> unresolved mm sn n"
    by (rule lookup_Inr_list [OF _ xs]) (rule 1(1))
  moreover have "\<forall>n\<in>set (own_class_types t). \<not> unresolved mm sn n"
    using VisitNode_lookup_Inr [of mm sn "rebuild t xs" s1] hook by simp
  ultimately show ?case by (auto simp: class_types_children [of t])
qed

lemma lookup_unresolved:
  assumes "n \<in> set (class_types t)" "unresolved mm sn n"
  shows "\<exists>m\<in>set (class_types t). unresolved mm sn m \<and>
     Visit (LookupExternalTypes mm sn) t s = Inl (KeyError (fst m))"
proof (cases "Visit (LookupExternalTypes mm sn) t s")
  case (Inl e)
  from lookup_Inl [OF this] show ?thesis using Inl by auto
next
  case (Inr r)
  from lookup_Inr [OF this] assms show ?thesis by blast
qed

lemma lookup_nodes_Inl:
  "lookup_nodes mm sn ns b s = Inl e \<Longrightarrow>
     \<exists>n\<in>set ns. unresolved mm sn n \<and>
        e = UnrestorableDependencyError (''Unresolved class: '' @ repr (fst n) @ ''.'')"
proof (induction ns arbitrary: s)
  case Nil
  then show ?case by simp
next
  case (Cons n ns)
  show ?case
  proof (cases "VisitClassType_lookup mm sn n s")
    case (Inl e')
    from VisitClassType_lookup_Inl [OF this] Cons.prems Inl show ?thesis
      by (simp add: unrestorable_def)
  next
    case (Inr r)
    then have "lookup_nodes mm sn ns b (snd r) = Inl e"
      using Cons.prems by (cases r) (auto split: if_splits)
    from Cons.IH [OF this] show ?thesis by auto
  qed
qed

lemma lookup_nodes_kept:
  "lookup_nodes mm sn ns b s = Inr (b1, s1) \<Longrightarrow> class_type_nodes b1 \<noteq> None \<Longrightarrow>
     \<forall>n\<in>set ns. \<not> unresolved mm sn n"
proof (induction ns arbitrary: s)
  case Nil
  then show ?case by simp
next
  case (Cons n ns)
  from Cons.prems(1) obtain n' s' where
    v: "VisitClassType_lookup mm sn n s = Inr (n', s')"
    by (auto split: sum.splits)
  have 1: "\<not> unresolved mm sn n" using v by (rule VisitClassType_lookup_Inr)
  have "lookup_nodes mm sn ns b s' = Inr (b1, s1)"
    using Cons.prems v by (auto split: if_splits)
  from Cons.IH [OF this Cons.prems(2)] 1 show ?case by simp
qed


lemma LookupClassReferences_unresolved:
  assumes i: "index_sound b" and n: "n \<in> set (class_types (ast b))"
    and u: "unresolved mm sn n"
  shows "\<exists>m\<in>set (class_types (ast b)). unresolved mm sn m \<and>
     LookupClassReferences b mm sn s =
       Inl (UnrestorableDependencyError (''Unresolved class: '' @ repr (fst m) @ ''.''))"
proof -
  have slow: "\<exists>m\<in>set (class_types (ast b)). unresolved mm sn m \<and>
      (case Visit (LookupExternalTypes mm sn) (ast b) s1 of
         Inl e \<Rightarrow> Inl (unrestorable e)
       | Inr (t, s) \<Rightarrow> Inr (t, s)) =
      (Inl (UnrestorableDependencyError (''Unresolved class: '' @ repr (fst m) @ ''.''))
        :: error + node \<times> store)" for s1
    using lookup_unresolved [OF n u, of s1] by (auto simp: unrestorable_def)
  show ?thesis
  proof (cases "class_type_nodes b")
    case None
    then show ?thesis using slow [of s]
      by (auto simp: LookupClassReferences_def)
  next
    case (Some ns)
    then have ns: "set ns = set (class_types (ast b))"
      using i by (simp add: index_sound_def)
    then obtain x xs where c: "ns = x # xs" using n by (cases ns) auto
    have L: "LookupClassReferences b mm sn s =
       bindE (lookup_nodes mm sn ns b s) (\<lambda>(b', s').
         bindE (if class_type_nodes b' = None
                then (case Visit (LookupExternalTypes mm sn) (ast b) s' of
                        Inl e \<Rightarrow> Inl (unrestorable e)
                      | Inr (t, s) \<Rightarrow> Inr (t, s))
                else Inr (ast b, s')) (\<lambda>(raw_ast, s).
         Inr (b'\<lparr>ast := raw_ast\<rparr>, s)))"
      using Some c
      by (simp add: LookupClassReferences_def Let_def del: lookup_nodes.simps)
    show ?thesis
    proof (cases "lookup_nodes mm sn ns b s")
      case (Inl e)
      from lookup_nodes_Inl [OF this] obtain m where
        "m \<in> set ns" "unresolved mm sn m"
        "e = UnrestorableDependencyError (''Unresolved class: '' @ repr (fst m) @ ''.'')"
        by blast
      then show ?thesis using L Inl ns by auto
    next
      case (Inr r)
      obtain b1 s1 where r: "r = (b1, s1)" by (cases r)
      have l: "lookup_nodes mm sn ns b s = Inr (b1, s1)" using Inr r by simp
      have k: "class_type_nodes b1 = None"
      proof (rule ccontr)
        assume "class_type_nodes b1 \<noteq> None"
        with l have "\<forall>n\<in>set ns. \<not> unresolved mm sn n" by (rule lookup_nodes_kept)
        then show False using n u ns by blast
      qed
      have a: "ast b1 = ast b"
        using lookup_nodes_Inr [OF l] by auto
      from slow [of s1] obtain m where
        m: "m \<in> set (class_types (ast b))" "unresolved mm sn m"
        "(case Visit (LookupExternalTypes mm sn) (ast b) s1 of
           Inl e \<Rightarrow> Inl (unrestorable e)
         | Inr (t, s) \<Rightarrow> Inr (t, s)) =
         (Inl (UnrestorableDependencyError (''Unresolved class: '' @ repr (fst m) @ ''.''))
           :: error + node \<times> store)"
        by blast
      have "LookupClassReferences b mm sn s =
          Inl (UnrestorableDependencyError (''Unresolved class: '' @ repr (fst m) @ ''.''))"
        unfolding L l using k m(3) by simp
      then show ?thesis using m(1,2) by blast
    qed
  qed
qed

section \<open>References that resolve to a class\<close>

lemma VisitClassType_lookup_resolvable:
  assumes "resolvable mm u n"
  shows "\<exists>s'. VisitClassType_lookup mm (Some (node_name u)) n s
             = Inr (ClassType (fst n) (snd n), s') \<and>
           (\<forall>p. cls s p \<noteq> None \<longrightarrow> cls s' p \<noteq> None) \<and>
           (local_target (local_map u) n \<noteq> None \<or> cls s' (snd n) \<noteq> None)"
  using assms
  by (cases n)
     (auto simp: resolvable_def VisitClassType_lookup_def set_cls_def
        split: prod.splits if_splits option.splits node.splits)

lemma lookup_nodes_resolvable:
  assumes "\<forall>n\<in>set ns. resolvable mm u n"
  shows "\<exists>s'. lookup_nodes mm (Some (node_name u)) ns b s = Inr (b, s') \<and>
           (\<forall>p. cls s p \<noteq> None \<longrightarrow> cls s' p \<noteq> None) \<and>
           (\<forall>n\<in>set ns. local_target (local_map u) n \<noteq> None \<or> cls s' (snd n) \<noteq> None)"
  using assms
proof (induction ns arbitrary: s)
  case Nil
  then show ?case by simp
next
  case (Cons n ns)
  from Cons.prems have "resolvable mm u n" by simp
  from VisitClassType_lookup_resolvable [OF this, of s] obtain s0 where
    v: "VisitClassType_lookup mm (Some (node_name u)) n s = Inr (ClassType (fst n) (snd n), s0)"
    and m0: "\<forall>p. cls s p \<noteq> None \<longrightarrow> cls s0 p \<noteq> None"
    and n0: "local_target (local_map u) n \<noteq> None \<or> cls s0 (snd n) \<noteq> None"
    by blast
  from Cons.prems have "\<forall>n\<in>set ns. resolvable mm u n" by simp
  from Cons.IH [OF this, of s0] obtain s' where
    l: "lookup_nodes mm (Some (node_name u)) ns b s0 = Inr (b, s')"
    and m1: "\<forall>p. cls s0 p \<noteq> None \<longrightarrow> cls s' p \<noteq> None"
    and n1: "\<forall>n\<in>set ns. local_target (local_map u) n \<noteq> None \<or> cls s' (snd n) \<noteq> None"
    by blast
  have "lookup_nodes mm (Some (node_name u)) (n # ns) b s = Inr (b, s')"
    using v l by simp
  moreover have "\<forall>p. cls s p \<noteq> None \<longrightarrow> cls s' p \<noteq> None"
    using m0 m1 by blast
  moreover have "\<forall>n\<in>set (n # ns). local_target (local_map u) n \<noteq> None \<or> cls s' (snd n) \<noteq> None"
    using n0 n1 m1 by auto
  ultimately show ?case by blast
qed

lemma fill_nodes_total:
  assumes "\<forall>n\<in>set ns. local_target mm n \<noteq> None \<or> cls s (snd n) \<noteq> None"
  shows "\<exists>s'. fill_nodes mm ns s = Inr s'"
  using assms
proof (induction ns arbitrary: s)
  case Nil
  then show ?case by simp
next
  case (Cons n ns)
  let ?s = "EnterClassType_fill mm n s"
  have 1: "cls ?s (snd n) \<noteq> None"
    using Cons.prems by (auto simp: cls_fill)
  have "\<forall>n\<in>set ns. local_target mm n \<noteq> None \<or> cls ?s (snd n) \<noteq> None"
    using Cons.prems by (auto simp: cls_fill)
  from Cons.IH [OF this] obtain s' where "fill_nodes mm ns ?s = Inr s'" by blast
  then show ?case using 1 by (simp add: Let_def)
qed

lemma ProcessAst_resolvable:
  assumes i: "class_type_nodes b = Some ns" and ns: "set ns = set (class_types (ast b))"
    and r: "\<forall>n\<in>set (class_types (ast b)). resolvable mm (ast b) n"
  shows "\<exists>s2. ProcessAst b mm s = Inr (ast b, s2) \<and>
           (\<forall>n\<in>set (class_types (ast b)). cls s2 (snd n) \<noteq> None)"
proof (cases ns)
  case Nil
  then have e: "class_types (ast b) = []" using ns by simp
  have "LookupClassReferences b mm (Some (node_name (ast b))) s = Inr (b, s)"
    using i Nil by (simp add: LookupClassReferences_def)
  moreover have "FillLocalReferences b [[] \<mapsto> ast b, node_name (ast b) \<mapsto> ast b] s = Inr s"
    using i Nil e by (simp add: FillLocalReferences_cases)
  ultimately have "ProcessAst b mm s = Inr (ast b, s)"
    by (simp add: ProcessAst_def)
  then show ?thesis using e by simp
next
  case (Cons x xs)
  from r ns have "\<forall>n\<in>set ns. resolvable mm (ast b) n" by simp
  from lookup_nodes_resolvable [OF this, of b s] obtain s1 where
    l: "lookup_nodes mm (Some (node_name (ast b))) ns b s = Inr (b, s1)"
    and n1: "\<forall>n\<in>set ns. local_target (local_map (ast b)) n \<noteq> None \<or> cls s1 (snd n) \<noteq> None"
    by blast
  have L: "LookupClassReferences b mm (Some (node_name (ast b))) s = Inr (b, s1)"
    using i l unfolding Cons
    by (simp add: LookupClassReferences_def Let_def del: lookup_nodes.simps)
  from fill_nodes_total [OF n1] obtain s2 where
    f: "fill_nodes (local_map (ast b)) ns s1 = Inr s2"
    by blast
  from fill_nodes_Inr [OF f] have nn: "\<forall>n\<in>set ns. cls s2 (snd n) \<noteq> None" by blast
  have F: "FillLocalReferences b [[] \<mapsto> ast b, node_name (ast b) \<mapsto> ast b] s1 = Inr s2"
    using i f unfolding Cons
    by (simp add: FillLocalReferences_cases local_map_def del: fill_nodes.simps)
  have "ProcessAst b mm s = Inr (ast b, s2)"
    using L F by (simp add: ProcessAst_def)
  then show ?thesis using nn ns by simp
qed

section \<open>The dependencies of a stored tree\<close>

text \<open>
  Claim C9. The dependency list of the bundle that \<open>StoreAst\<close> builds is sorted and has
  no duplicates (lemma \<open>StoreAst_dependencies_sorted\<close>), but it need not hold the name
  of the tree itself when the tree has declarations: the module \<open>m\<close> below declares a
  constant and a class, and its only dependency is \<open>other\<close>.
\<close>

theorem StoreAst_dependencies_miss_own_name:
  "map_sum id (dependencies \<circ> fst)
     (StoreAst (TypeDeclUnit ''m'' [Constant ''m.x'' (ClassType ''other.C'' 0)] []
        [Class ''m.A'' [] [] []] [] []) s_empty) = Inr [''other'']"
  by (simp add: eval_defs s_empty_def)

section \<open>Loading a module that is in the module map\<close>

text \<open>
  Claim C6. When the name of the module being loaded is already a key of the module map,
  \<open>ProcessAst\<close> should fail with an \<open>AssertionError\<close>; it returns the resolved tree
  instead. The module \<open>m\<close> is stored and then loaded with a map that holds \<open>m\<close>.
\<close>

theorem ProcessAst_module_already_loaded:
  "bindE (StoreAst (TypeDeclUnit ''m'' [Constant ''m.x'' (ClassType ''m.A'' 0)] []
        [Class ''m.A'' [] [] []] [] []) s_empty)
     (\<lambda>(b, s). ProcessAst b [''m'' \<mapsto> TypeDeclUnit ''m'' [] [] [] [] []] s)
   = Inr (TypeDeclUnit ''m'' [Constant ''m.x'' (ClassType ''m.A'' 0)] []
        [Class ''m.A'' [] [] []] [] [], set_cls 0 (Some (Class ''m.A'' [] [] [])) s_empty)"
  by (simp add: eval_defs s_empty_def)

section \<open>Renaming: precision and pointers\<close>

lemma rename_root:
  assumes "Visit (rename_visitor r) (TypeDeclUnit nm cs tps cl fs al) s = Inr (u, s')"
  shows "node_name u = r_module_name r"
proof -
  from assms obtain xs s1 where
    "VisitNode_rename r (rebuild (TypeDeclUnit nm cs tps cl fs al) xs) s1 = Inr (u, s')"
    by (rule Visit_InrD) simp_all
  then show ?thesis by (auto simp: VisitTypeDeclUnit_def)
qed

text \<open>
  Claim C4. A renamer from \<open>m1\<close> to \<open>m2\<close> rewrites a name \<open>m1.X\<close> with no dot in \<open>X\<close>
  to \<open>m2.X\<close>, leaves \<open>m1.X\<close> with a dot in \<open>X\<close> and every name that does not start with
  \<open>m1.\<close> as they are, maps every name-bearing field of a tree in this way, and sets the
  name of the root to \<open>m2\<close> whatever it was.
\<close>

theorem rename_precision:
  assumes "RenameModuleVisitor m1 m2 = Inr r" and "m2 \<noteq> []"
  shows "(CHR ''.'' \<notin> set x \<longrightarrow> MaybeNewName r (m1 @ ''.'' @ x) = m2 @ ''.'' @ x) \<and>
         (CHR ''.'' \<in> set x \<longrightarrow> MaybeNewName r (m1 @ ''.'' @ x) = m1 @ ''.'' @ x) \<and>
         (\<not> prefix (m1 @ ''.'') nm \<longrightarrow> MaybeNewName r nm = nm) \<and>
         (\<exists>t' s'. Visit (rename_visitor r) t s = Inr (t', s') \<and>
            name_fields t' = map (MaybeNewName r) (name_fields t)) \<and>
         (\<exists>u s'. Visit (rename_visitor r) (TypeDeclUnit nm0 cs tps cl fs al) s = Inr (u, s') \<and>
            node_name u = m2)"
proof -
  have r: "r_old r = m1 @ ''.''" "r_module_name r = m2" "r_new r = m2 @ ''.''"
    using RenameModuleVisitor_Inr [OF assms(1)] assms(2) by simp_all
  have 1: "CHR ''.'' \<notin> set x \<longrightarrow> MaybeNewName r (m1 @ ''.'' @ x) = m2 @ ''.'' @ x"
    using MaybeNewName_direct [of r x] r by simp
  have 2: "CHR ''.'' \<in> set x \<longrightarrow> MaybeNewName r (m1 @ ''.'' @ x) = m1 @ ''.'' @ x"
    using MaybeNewName_nested [of r x] r by simp
  have 3: "\<not> prefix (m1 @ ''.'') nm \<longrightarrow> MaybeNewName r nm = nm"
    using MaybeNewName_other [of r nm] r by simp
  obtain t' s' where t: "Visit (rename_visitor r) t s = Inr (t', s')"
    using rename_total by blast
  have 4: "\<exists>t' s'. Visit (rename_visitor r) t s = Inr (t', s') \<and>
            name_fields t' = map (MaybeNewName r) (name_fields t)"
    using t rename_fields [OF t] by blast
  obtain u s'' where u: "Visit (rename_visitor r) (TypeDeclUnit nm0 cs tps cl fs al) s = Inr (u, s'')"
    using rename_total by blast
  have 5: "\<exists>u s'. Visit (rename_visitor r) (TypeDeclUnit nm0 cs tps cl fs al) s = Inr (u, s') \<and>
            node_name u = m2"
    using u rename_root [OF u] r by blast
  show ?thesis using 1 2 3 4 5 by blast
qed

theorem rename_precision_witness:
  "RenameModuleVisitor ''m1'' ''m2'' =
      Inr \<lparr>r_module_name = ''m2'', r_old = ''m1.'', r_new = ''m2.''\<rparr> \<and>
   MaybeNewName \<lparr>r_module_name = ''m2'', r_old = ''m1.'', r_new = ''m2.''\<rparr> ''m1.Foo'' = ''m2.Foo'' \<and>
   MaybeNewName \<lparr>r_module_name = ''m2'', r_old = ''m1.'', r_new = ''m2.''\<rparr> ''m1.Foo.Bar''
      = ''m1.Foo.Bar'' \<and>
   MaybeNewName \<lparr>r_module_name = ''m2'', r_old = ''m1.'', r_new = ''m2.''\<rparr> ''other.Foo''
      = ''other.Foo'' \<and>
   map_sum id (\<lambda>x. (node_name (fst x), name_fields (fst x)))
     (Visit (rename_visitor \<lparr>r_module_name = ''m2'', r_old = ''m1.'', r_new = ''m2.''\<rparr>)
        (TypeDeclUnit ''old'' [Constant ''m1.c'' (ClassType ''m1.Foo'' 0)] []
           [Class ''m1.Foo'' [NamedType ''m1.Foo.Bar''] [] []] [] []) s_empty)
     = Inr (''m2'', [''m2.c'', ''m2.Foo'', ''m2.Foo'', ''m1.Foo.Bar''])"
proof -
  let ?r = "\<lparr>r_module_name = ''m2'', r_old = ''m1.'', r_new = ''m2.''\<rparr>"
  have h: "RenameModuleVisitor ''m1'' ''m2'' = Inr ?r"
    by (simp add: RenameModuleVisitor_def endswith_def suffix_def)
  have n: "''m2'' \<noteq> []" by simp
  note a = rename_precision [OF h n, where x = "''Foo''" and nm = "''other.Foo''"]
  note b = rename_precision [OF h n, where x = "''Foo.Bar''" and nm = "''other.Foo''"]
  show ?thesis
    using h a b by (simp add: eval_defs s_empty_def)
qed

text \<open>
  Claim C8. The renamer keeps the resolved pointer of every class reference: the
  \<open>VisitClassType\<close> hook returns a class reference with the new name and the pointer of
  the node it was given, and after renaming a whole tree the class references of the new
  tree have, one by one, the new names and the pointers of the old tree's, while the old
  nodes keep theirs.
\<close>

theorem renamer_preserves_pointers:
  "(case VisitClassType_rename r (nm, p) s of (n', s') \<Rightarrow>
      \<exists>p'. n' = ClassType (MaybeNewName r nm) p' \<and> cls s' p' = cls s p) \<and>
   (Visit (rename_visitor r) t s = Inr (t', s') \<and> allocated s (class_types t) \<longrightarrow>
      list_all2 (renamed_ref r s s') (class_types t') (class_types t) \<and>
      list_all (\<lambda>n. cls s' (snd n) = cls s (snd n)) (class_types t))"
proof -
  have 1: "case VisitClassType_rename r (nm, p) s of (n', s') \<Rightarrow>
      \<exists>p'. n' = ClassType (MaybeNewName r nm) p' \<and> cls s' p' = cls s p"
    by (simp add: rename_defs)
  have 2: "list_all2 (renamed_ref r s s') (class_types t') (class_types t)"
    if "Visit (rename_visitor r) t s = Inr (t', s')" "allocated s (class_types t)"
    using that by (rule rename_refs)
  have 3: "list_all (\<lambda>n. cls s' (snd n) = cls s (snd n)) (class_types t)"
    if "Visit (rename_visitor r) t s = Inr (t', s')" "allocated s (class_types t)"
    using rename_extends [OF that(1)] that(2)
    by (auto simp: extends_def allocated_def list_all_iff)
  show ?thesis using 1 2 3 by blast
qed

theorem renamer_preserves_pointers_witness:
  "(case Visit (rename_visitor \<lparr>r_module_name = ''m2'', r_old = ''m1.'', r_new = ''m2.''\<rparr>)
          (TypeDeclUnit ''m1'' [Constant ''m1.c'' (ClassType ''m1.A'' 0),
             Constant ''m1.d'' (ClassType ''other.B'' 1)] [] [] [] [])
          (set_cls 0 (Some (Class ''m1.A'' [] [] []))
             (set_cls 1 (Some (Class ''other.B'' [] [] [])) s_empty)) of
      Inl e \<Rightarrow> False
    | Inr (t', s') \<Rightarrow>
        t' = TypeDeclUnit ''m2'' [Constant ''m2.c'' (ClassType ''m2.A'' 3),
             Constant ''m2.d'' (ClassType ''other.B'' 1)] [] [] [] [] \<and>
        cls s' 3 = Some (Class ''m1.A'' [] [] []) \<and>
        cls s' 1 = Some (Class ''other.B'' [] [] []) \<and>
        cls s' 0 = Some (Class ''m1.A'' [] [] []) \<and>
        list_all2 (renamed_ref \<lparr>r_module_name = ''m2'', r_old = ''m1.'', r_new = ''m2.''\<rparr>
          (set_cls 0 (Some (Class ''m1.A'' [] [] []))
             (set_cls 1 (Some (Class ''other.B'' [] [] [])) s_empty)) s')
          (class_types t') [(''m1.A'', 0), (''other.B'', 1)])"
proof -
  let ?r = "\<lparr>r_module_name = ''m2'', r_old = ''m1.'', r_new = ''m2.''\<rparr>"
  let ?t = "TypeDeclUnit ''m1'' [Constant ''m1.c'' (ClassType ''m1.A'' 0),
             Constant ''m1.d'' (ClassType ''other.B'' 1)] [] [] [] []"
  let ?s = "set_cls 0 (Some (Class ''m1.A'' [] [] []))
             (set_cls 1 (Some (Class ''other.B'' [] [] [])) s_empty)"
  obtain t' s' where v: "Visit (rename_visitor ?r) ?t ?s = Inr (t', s')"
    using rename_total by blast
  have a: "allocated ?s (class_types ?t)"
    by (simp add: allocated_def set_cls_def s_empty_def)
  have "list_all2 (renamed_ref ?r ?s s') (class_types t') (class_types ?t)"
    using renamer_preserves_pointers [where r = ?r and s = ?s and t = ?t and t' = t' and s' = s'] v a
    by blast
  moreover have "t' = TypeDeclUnit ''m2'' [Constant ''m2.c'' (ClassType ''m2.A'' 3),
             Constant ''m2.d'' (ClassType ''other.B'' 1)] [] [] [] [] \<and>
        cls s' 3 = Some (Class ''m1.A'' [] [] []) \<and>
        cls s' 1 = Some (Class ''other.B'' [] [] []) \<and>
        cls s' 0 = Some (Class ''m1.A'' [] [] [])"
    using v by (auto simp add: eval_defs s_empty_def)
  ultimately show ?thesis using v by simp
qed

section \<open>What storing does to the caller's tree\<close>

text \<open>
  Claim C10. \<open>StoreAst\<close> writes to its input: when it returns, every class reference
  of the stored tree has a null pointer, so has every class reference of the caller's
  tree that is an object of the stored tree as well, and when the name of the tree does
  not end in \<open>.__init__\<close> the stored tree is the caller's tree, all of whose class
  references are unset.
\<close>

theorem StoreAst_clears_shared_pointers:
  "StoreAst t s = Inr (b, s') \<longrightarrow>
     list_all (\<lambda>n. cls s' (snd n) = None) (class_types (ast b)) \<and>
     list_all (\<lambda>n. cls s' (snd n) = None)
       (filter (\<lambda>n. snd n \<in> snd ` set (class_types (ast b))) (class_types t)) \<and>
     (\<not> endswith (node_name t) ''.__init__'' \<longrightarrow>
        ast b = t \<and> list_all (\<lambda>n. cls s' (snd n) = None) (class_types t))"
proof
  assume "StoreAst t s = Inr (b, s')"
  then obtain t1 s1 where
    1: "if endswith (node_name t) ''.__init__''
     then \<exists>r. RenameModuleVisitor (node_name t) (rsplit1_head (node_name t) ''.__init__'') = Inr r
              \<and> Visit (rename_visitor r) t s = Inr (t1, s1)
     else t1 = t \<and> s1 = s"
    and 2: "ast b = t1" and 3: "s' = fold EnterClassType_clear (class_types t1) s1"
    by (rule StoreAst_InrD) simp_all
  have a: "list_all (\<lambda>n. cls s' (snd n) = None) (class_types (ast b))"
    by (simp add: 2 3 cls_fold_clear list_all_iff)
  then have b: "list_all (\<lambda>n. cls s' (snd n) = None)
       (filter (\<lambda>n. snd n \<in> snd ` set (class_types (ast b))) (class_types t))"
    by (auto simp: list_all_iff)
  have c: "ast b = t \<and> list_all (\<lambda>n. cls s' (snd n) = None) (class_types t)"
    if "\<not> endswith (node_name t) ''.__init__''"
    using that 1 2 a by auto
  show "list_all (\<lambda>n. cls s' (snd n) = None) (class_types (ast b)) \<and>
     list_all (\<lambda>n. cls s' (snd n) = None)
       (filter (\<lambda>n. snd n \<in> snd ` set (class_types (ast b))) (class_types t)) \<and>
     (\<not> endswith (node_name t) ''.__init__'' \<longrightarrow>
        ast b = t \<and> list_all (\<lambda>n. cls s' (snd n) = None) (class_types t))"
    using a b c by blast
qed

theorem StoreAst_clears_shared_pointers_witness:
  "cls (set_cls 0 (Some (Class ''other.C'' [] [] [])) s_empty) 0 = Some (Class ''other.C'' [] [] []) \<and>
   (case StoreAst (TypeDeclUnit ''m'' [Constant ''m.x'' (ClassType ''other.C'' 0)] [] [] [] [])
           (set_cls 0 (Some (Class ''other.C'' [] [] [])) s_empty) of
      Inl e \<Rightarrow> False
    | Inr (b, s') \<Rightarrow>
        ast b = TypeDeclUnit ''m'' [Constant ''m.x'' (ClassType ''other.C'' 0)] [] [] [] [] \<and>
        cls s' 0 = None)"
proof -
  let ?t = "TypeDeclUnit ''m'' [Constant ''m.x'' (ClassType ''other.C'' 0)] [] [] [] []"
  let ?s = "set_cls 0 (Some (Class ''other.C'' [] [] [])) s_empty"
  obtain b s' where r: "StoreAst ?t ?s = Inr (b, s')"
    by (simp add: eval_defs s_empty_def)
  have n: "\<not> endswith (node_name ?t) ''.__init__''"
    by (simp add: endswith_def suffix_def)
  have "ast b = ?t \<and> list_all (\<lambda>n. cls s' (snd n) = None) (class_types ?t)"
    using StoreAst_clears_shared_pointers [of ?t ?s b s'] r n by blast
  then show ?thesis using r by (simp add: set_cls_def)
qed

section \<open>Soundness of the index\<close>

text \<open>
  Claim C2. The index of a bundle stays sound. \<open>StoreAst\<close> builds it from a full
  traversal of the tree it stores, after clearing the pointers; \<open>EnsureAstName\<close> keeps a
  sound index sound and drops the index whenever it renames; \<open>_LookupClassReferences\<close>
  keeps a sound index sound, and when the resolution of an indexed node returns another
  node it drops the index and returns the tree of a full traversal, while the bundle is
  returned as it is when no indexed node does.
\<close>

theorem index_soundness_preserved:
  "(StoreAst t s = Inr (b, s') \<longrightarrow>
      class_type_nodes b = Some (sort_key fst (class_types (ast b))) \<and> index_sound b \<and>
      list_all (\<lambda>n. cls s' (snd n) = None) (class_types (ast b))) \<and>
   (EnsureAstName b0 nm s0 = Inr (b0', s0') \<and> index_sound b0 \<longrightarrow>
      index_sound b0' \<and> (nm \<noteq> node_name (ast b0) \<longrightarrow> class_type_nodes b0' = None)) \<and>
   (LookupClassReferences b1 mm sn s1 = Inr (b1', s1') \<and> index_sound b1 \<longrightarrow>
      index_sound b1' \<and>
      (\<forall>ns. class_type_nodes b1 = Some ns \<longrightarrow>
         ((\<exists>n\<in>set ns. restructures mm sn n) \<longrightarrow>
            class_type_nodes b1' = None \<and>
            (\<exists>s2. Visit (LookupExternalTypes mm sn) (ast b1) s2 = Inr (ast b1', s1'))) \<and>
         ((\<forall>n\<in>set ns. \<not> restructures mm sn n) \<longrightarrow> b1' = b1)))"
proof -
  have 1: "class_type_nodes b = Some (sort_key fst (class_types (ast b))) \<and> index_sound b \<and>
      list_all (\<lambda>n. cls s' (snd n) = None) (class_types (ast b))"
    if "StoreAst t s = Inr (b, s')"
  proof -
    from that obtain t1 s1 where "ast b = t1" "s' = fold EnterClassType_clear (class_types t1) s1"
      by (rule StoreAst_InrD) simp
    then have "list_all (\<lambda>n. cls s' (snd n) = None) (class_types (ast b))"
      by (simp add: cls_fold_clear list_all_iff)
    then show ?thesis
      using StoreAst_index [OF that] by (simp add: index_sound_def)
  qed
  have 2: "index_sound b0' \<and> (nm \<noteq> node_name (ast b0) \<longrightarrow> class_type_nodes b0' = None)"
    if "EnsureAstName b0 nm s0 = Inr (b0', s0')" "index_sound b0"
    using EnsureAstName_index [OF that(1)] that(2) by (auto simp: index_sound_def)
  have 3: "index_sound b1' \<and>
      (\<forall>ns. class_type_nodes b1 = Some ns \<longrightarrow>
         ((\<exists>n\<in>set ns. restructures mm sn n) \<longrightarrow>
            class_type_nodes b1' = None \<and>
            (\<exists>s2. Visit (LookupExternalTypes mm sn) (ast b1) s2 = Inr (ast b1', s1'))) \<and>
         ((\<forall>n\<in>set ns. \<not> restructures mm sn n) \<longrightarrow> b1' = b1))"
    if "LookupClassReferences b1 mm sn s1 = Inr (b1', s1')" "index_sound b1"
    using LookupClassReferences_InrD [OF that(1)] LookupClassReferences_index_sound [OF that]
    by auto
  show ?thesis using 1 2 3 by blast
qed

theorem index_soundness_preserved_witness:
  "(case StoreAst (TypeDeclUnit ''m'' [Constant ''m.y'' (ClassType ''m.A'' 0)] []
            [Class ''m.A'' [] [] [Constant ''x'' (ClassType ''other.Al'' 1)]] [] []) s_empty of
      Inl e \<Rightarrow> False
    | Inr (b, s) \<Rightarrow>
        class_type_nodes b = Some [(''m.A'', 0), (''other.Al'', 1)] \<and> index_sound b \<and>
        (case EnsureAstName b ''m2'' s of
           Inl e \<Rightarrow> False
         | Inr (b', s') \<Rightarrow> class_type_nodes b' = None \<and> index_sound b') \<and>
        restructures [''other'' \<mapsto> TypeDeclUnit ''other'' [] [] [] []
             [Alias ''other.Al'' (NamedType ''int'')]] (Some ''m'') (''other.Al'', 1) \<and>
        (case LookupClassReferences b [''other'' \<mapsto> TypeDeclUnit ''other'' [] [] [] []
             [Alias ''other.Al'' (NamedType ''int'')]] (Some ''m'') s of
           Inl e \<Rightarrow> False
         | Inr (b', s') \<Rightarrow> class_type_nodes b' = None \<and> index_sound b' \<and>
             ast b' = TypeDeclUnit ''m'' [Constant ''m.y'' (ClassType ''m.A'' 0)] []
               [Class ''m.A'' [] [] [Constant ''x'' (NamedType ''int'')]] [] []))"
proof -
  let ?t = "TypeDeclUnit ''m'' [Constant ''m.y'' (ClassType ''m.A'' 0)] []
            [Class ''m.A'' [] [] [Constant ''x'' (ClassType ''other.Al'' 1)]] [] []"
  let ?b = "\<lparr>ast = ?t, dependencies = [''m'', ''other''],
             class_type_nodes = Some [(''m.A'', 0), (''other.Al'', 1)]\<rparr>"
  let ?mm = "[''other'' \<mapsto> TypeDeclUnit ''other'' [] [] [] []
             [Alias ''other.Al'' (NamedType ''int'')]]"
  obtain s where r: "StoreAst ?t s_empty = Inr (?b, s)"
    by (simp add: eval_defs s_empty_def)
  obtain t2 s0' where v: "Visit (rename_visitor
      \<lparr>r_module_name = ''m2'', r_old = ''m.'', r_new = ''m2.''\<rparr>) ?t s = Inr (t2, s0')"
    using rename_total by blast
  define b0' where "b0' = ?b\<lparr>class_type_nodes := None, ast := t2\<rparr>"
  have e: "EnsureAstName ?b ''m2'' s = Inr (b0', s0')"
    using v by (simp add: EnsureAstName_def RenameModuleVisitor_def endswith_def suffix_def b0'_def)
  obtain b1' s1' where l: "LookupClassReferences ?b ?mm (Some ''m'') s = Inr (b1', s1')"
    and a: "ast b1' = TypeDeclUnit ''m'' [Constant ''m.y'' (ClassType ''m.A'' 0)] []
               [Class ''m.A'' [] [] [Constant ''x'' (NamedType ''int'')]] [] []"
    by (simp add: eval_defs)
  have x: "restructures ?mm (Some ''m'') (''other.Al'', 1)"
    unfolding restructures_def
    by (rule exI [of _ s_empty]) (simp add: eval_defs)
  note T = index_soundness_preserved [where t = ?t and s = s_empty and b = ?b and s' = s
      and ?b0.0 = ?b and nm = "''m2''" and ?s0.0 = s and b0' = b0' and s0' = s0'
      and ?b1.0 = ?b and mm = ?mm and sn = "Some ''m''" and ?s1.0 = s and b1' = b1' and s1' = s1']
  have i: "index_sound ?b" using T r by blast
  have "class_type_nodes b0' = None \<and> index_sound b0'" using T e i by auto
  moreover have "class_type_nodes b1' = None \<and> index_sound b1'" using T l i x by auto
  ultimately show ?thesis using r e l a x i by simp
qed

section \<open>The completeness check of local resolution\<close>

text \<open>
  Claim C7. With a sound index that is present, \<open>_FillLocalReferences\<close> runs the local
  filler over the indexed class references and over nothing else: every cell of the store
  is as it was or holds the local target of an indexed node at that address; when it
  returns, no indexed node has a null pointer; it raises an \<open>AssertionError\<close> only at an
  indexed node that has no local target, and it does raise when an indexed node has a
  null pointer that no indexed node fills. With no index it returns the store of a full
  traversal, in which every class reference of the tree that has a local target is
  filled.
\<close>

theorem FillLocalReferences_indexed_or_full:
  "(index_sound b \<longrightarrow>
      (\<forall>ns. class_type_nodes b = Some ns \<longrightarrow>
         (\<forall>s'. FillLocalReferences b mm s = Inr s' \<longrightarrow>
            s' = fold (EnterClassType_fill mm) ns s \<and>
            (\<forall>n\<in>set ns. cls s' (snd n) \<noteq> None) \<and>
            (\<forall>p. cls s' p = cls s p \<or>
               (\<exists>n\<in>set ns. snd n = p \<and> local_target mm n \<noteq> None \<and>
                  cls s' p = local_target mm n))) \<and>
         (\<forall>e. FillLocalReferences b mm s = Inl e \<longrightarrow>
            (\<exists>n\<in>set ns. e = AssertionError (''This should not happen: '' @ fst n) \<and>
               local_target mm n = None)) \<and>
         ((\<exists>n\<in>set ns. cls s (snd n) = None \<and>
             (\<forall>n'\<in>set ns. snd n' = snd n \<longrightarrow> local_target mm n' = None)) \<longrightarrow>
          (\<exists>e. FillLocalReferences b mm s = Inl e)))) \<and>
   (class_type_nodes b = None \<longrightarrow>
      FillLocalReferences b mm s = Inr (fold (EnterClassType_fill mm) (class_types (ast b)) s) \<and>
      (\<forall>n\<in>set (class_types (ast b)). local_target mm n \<noteq> None \<longrightarrow>
         cls (fold (EnterClassType_fill mm) (class_types (ast b)) s) (snd n) \<noteq> None))"
proof -
  have full: "FillLocalReferences b mm s = Inr (fold (EnterClassType_fill mm) (class_types (ast b)) s) \<and>
      (\<forall>n\<in>set (class_types (ast b)). local_target mm n \<noteq> None \<longrightarrow>
         cls (fold (EnterClassType_fill mm) (class_types (ast b)) s) (snd n) \<noteq> None)"
    if "class_type_nodes b = None"
    using that by (simp add: FillLocalReferences_cases fold_fill_filled)
  have idx: "(\<forall>s'. FillLocalReferences b mm s = Inr s' \<longrightarrow>
            s' = fold (EnterClassType_fill mm) ns s \<and>
            (\<forall>n\<in>set ns. cls s' (snd n) \<noteq> None) \<and>
            (\<forall>p. cls s' p = cls s p \<or>
               (\<exists>n\<in>set ns. snd n = p \<and> local_target mm n \<noteq> None \<and>
                  cls s' p = local_target mm n))) \<and>
         (\<forall>e. FillLocalReferences b mm s = Inl e \<longrightarrow>
            (\<exists>n\<in>set ns. e = AssertionError (''This should not happen: '' @ fst n) \<and>
               local_target mm n = None)) \<and>
         ((\<exists>n\<in>set ns. cls s (snd n) = None \<and>
             (\<forall>n'\<in>set ns. snd n' = snd n \<longrightarrow> local_target mm n' = None)) \<longrightarrow>
          (\<exists>e. FillLocalReferences b mm s = Inl e))"
    if i: "index_sound b" and ns: "class_type_nodes b = Some ns" for ns
  proof (cases ns)
    case Nil
    then have "class_types (ast b) = []"
      using i ns by (simp add: index_sound_def)
    then show ?thesis
      using ns Nil by (simp add: FillLocalReferences_cases)
  next
    case (Cons x xs)
    have f: "FillLocalReferences b mm s = fill_nodes mm ns s"
      using ns Cons by (simp add: FillLocalReferences_cases)
    have 1: "s' = fold (EnterClassType_fill mm) ns s \<and>
            (\<forall>n\<in>set ns. cls s' (snd n) \<noteq> None) \<and>
            (\<forall>p. cls s' p = cls s p \<or>
               (\<exists>n\<in>set ns. snd n = p \<and> local_target mm n \<noteq> None \<and>
                  cls s' p = local_target mm n))"
      if "fill_nodes mm ns s = Inr s'" for s'
      using fill_nodes_Inr [OF that] fold_fill_cell [of mm ns s] by blast
    have 2: "\<exists>n\<in>set ns. e = AssertionError (''This should not happen: '' @ fst n) \<and>
               local_target mm n = None"
      if "fill_nodes mm ns s = Inl e" for e
      using that by (rule fill_nodes_Inl)
    have 3: "\<exists>e. fill_nodes mm ns s = Inl e"
      if "\<exists>n\<in>set ns. cls s (snd n) = None \<and>
             (\<forall>n'\<in>set ns. snd n' = snd n \<longrightarrow> local_target mm n' = None)"
      using that fill_nodes_raises by blast
    show ?thesis unfolding f using 1 2 3 by blast
  qed
  show ?thesis using full idx by blast
qed

theorem FillLocalReferences_indexed_or_full_witness:
  "index_sound \<lparr>ast = TypeDeclUnit ''m'' [Constant ''m.y'' (ClassType ''m.A'' 0)] []
        [Class ''m.A'' [] [] []] [] [], dependencies = [''m''],
        class_type_nodes = Some [(''m.A'', 0)]\<rparr> \<and>
   (case FillLocalReferences \<lparr>ast = TypeDeclUnit ''m'' [Constant ''m.y'' (ClassType ''m.A'' 0)] []
        [Class ''m.A'' [] [] []] [] [], dependencies = [''m''],
        class_type_nodes = Some [(''m.A'', 0)]\<rparr>
        (local_map (TypeDeclUnit ''m'' [Constant ''m.y'' (ClassType ''m.A'' 0)] []
        [Class ''m.A'' [] [] []] [] [])) s_empty of
      Inl e \<Rightarrow> False
    | Inr s' \<Rightarrow> cls s' 0 = Some (Class ''m.A'' [] [] []) \<and> cls s' 1 = None) \<and>
   index_sound \<lparr>ast = TypeDeclUnit ''m'' [Constant ''m.y'' (ClassType ''m.B'' 0)] []
        [Class ''m.A'' [] [] []] [] [], dependencies = [''m''],
        class_type_nodes = Some [(''m.B'', 0)]\<rparr> \<and>
   FillLocalReferences \<lparr>ast = TypeDeclUnit ''m'' [Constant ''m.y'' (ClassType ''m.B'' 0)] []
        [Class ''m.A'' [] [] []] [] [], dependencies = [''m''],
        class_type_nodes = Some [(''m.B'', 0)]\<rparr>
        (local_map (TypeDeclUnit ''m'' [Constant ''m.y'' (ClassType ''m.B'' 0)] []
        [Class ''m.A'' [] [] []] [] [])) s_empty
     = Inl (AssertionError ''This should not happen: m.B'') \<and>
   FillLocalReferences \<lparr>ast = TypeDeclUnit ''m'' [Constant ''m.y'' (ClassType ''m.B'' 0)] []
        [Class ''m.A'' [] [] []] [] [], dependencies = [''m''],
        class_type_nodes = None\<rparr>
        (local_map (TypeDeclUnit ''m'' [Constant ''m.y'' (ClassType ''m.B'' 0)] []
        [Class ''m.A'' [] [] []] [] [])) s_empty
     = Inr s_empty"
proof -
  let ?t = "TypeDeclUnit ''m'' [Constant ''m.y'' (ClassType ''m.A'' 0)] []
        [Class ''m.A'' [] [] []] [] []"
  let ?b = "\<lparr>ast = ?t, dependencies = [''m''], class_type_nodes = Some [(''m.A'', 0)]\<rparr>"
  let ?u = "TypeDeclUnit ''m'' [Constant ''m.y'' (ClassType ''m.B'' 0)] []
        [Class ''m.A'' [] [] []] [] []"
  let ?c = "\<lparr>ast = ?u, dependencies = [''m''], class_type_nodes = Some [(''m.B'', 0)]\<rparr>"
  let ?d = "\<lparr>ast = ?u, dependencies = [''m''], class_type_nodes = None\<rparr>"
  have i: "index_sound ?b" "index_sound ?c"
    by (simp_all add: index_sound_def)
  obtain s' where r: "FillLocalReferences ?b (local_map ?t) s_empty = Inr s'"
    by (simp add: eval_defs local_map_def)
  have 1: "cls s' 0 = Some (Class ''m.A'' [] [] []) \<and> cls s' 1 = None"
    using FillLocalReferences_indexed_or_full [of ?b "local_map ?t" s_empty] i(1) r
    by (auto simp: eval_defs local_map_def local_target_def s_empty_def)
  have lt: "local_target (local_map ?u) (''m.B'', 0) = None"
    by (simp add: local_target_def local_map_def rpartition_def)
  have "\<exists>e. FillLocalReferences ?c (local_map ?u) s_empty = Inl e"
    using FillLocalReferences_indexed_or_full [of ?c "local_map ?u" s_empty] i(2) lt
    by (simp add: s_empty_def)
  then have 2: "FillLocalReferences ?c (local_map ?u) s_empty
      = Inl (AssertionError ''This should not happen: m.B'')"
    by (simp add: eval_defs local_map_def s_empty_def)
  have 3: "FillLocalReferences ?d (local_map ?u) s_empty = Inr s_empty"
    using FillLocalReferences_indexed_or_full [of ?d "local_map ?u" s_empty]
    by (simp add: eval_defs local_map_def)
  show ?thesis using i r 1 2 3 by simp
qed

section \<open>The order of external and local resolution\<close>

text \<open>
  Claim C5. Local pointers are filled from the tree as external resolution left it.
  When \<open>ProcessAst\<close> returns the tree \<open>t'\<close>, this is the tree of the bundle that
  \<open>_LookupClassReferences\<close> returned, and every class reference of \<open>t'\<close> that local
  resolution finds a class for in \<open>t'\<close> points to that class of \<open>t'\<close>; in the scenario of
  the witness the class \<open>A\<close> is rebuilt by external resolution, and the self reference
  points to the rebuilt class.
\<close>

theorem ProcessAst_local_pointers_target_resolved_tree:
  "ProcessAst b mm s = Inr (t', s') \<and> index_sound b \<longrightarrow>
     (\<exists>b1 s1. LookupClassReferences b mm (Some (node_name (ast b))) s = Inr (b1, s1) \<and>
        ast b1 = t') \<and>
     (\<forall>n\<in>set (class_types t'). \<forall>c.
        local_target (local_map t') n = Some c \<and> one_name_per_object (class_types t') \<longrightarrow>
        cls s' (snd n) = Some c)"
proof (intro impI)
  assume a: "ProcessAst b mm s = Inr (t', s') \<and> index_sound b"
  then have p: "ProcessAst b mm s = Inr (t', s')" and ib: "index_sound b"
    by simp_all
  from p obtain b1 s1 where
    l: "LookupClassReferences b mm (Some (node_name (ast b))) s = Inr (b1, s1)" and
    t: "t' = ast b1" and f: "FillLocalReferences b1 (local_map (ast b1)) s1 = Inr s'"
    by (rule ProcessAst_InrD)
  have i: "index_sound b1"
    using l ib by (rule LookupClassReferences_index_sound)
  from f i obtain ns where
    s': "s' = fold (EnterClassType_fill (local_map (ast b1))) ns s1" and
    ns: "set ns = set (class_types (ast b1))"
    by (rule FillLocalReferences_fold)
  have main: "cls s' (snd n) = Some c"
    if n: "n \<in> set (class_types (ast b1))"
      and c: "local_target (local_map (ast b1)) n = Some c"
      and o: "one_name_per_object (class_types (ast b1))" for n c
  proof -
    have same: "local_target (local_map (ast b1)) n' = Some c"
      if "n' \<in> set ns" "snd n' = snd n" for n'
    proof -
      have "n' \<in> set (class_types (ast b1))" using that(1) ns by simp
      then have "fst n' = fst n"
        using o n that(2) unfolding one_name_per_object_def list_all_iff by blast
      then have "local_target (local_map (ast b1)) n' = local_target (local_map (ast b1)) n"
        by (rule local_target_name)
      then show ?thesis using c by simp
    qed
    have n': "n \<in> set ns" using n ns by simp
    have "cls (fold (EnterClassType_fill (local_map (ast b1))) ns s1) (snd n) = Some c"
      using n' c
    proof (rule fold_fill_target)
      show "\<forall>n'\<in>set ns. snd n' = snd n \<longrightarrow>
          local_target (local_map (ast b1)) n' = Some c \<or>
          local_target (local_map (ast b1)) n' = None"
        using same by blast
    qed
    then show ?thesis by (simp add: s')
  qed
  show "(\<exists>b1 s1. LookupClassReferences b mm (Some (node_name (ast b))) s = Inr (b1, s1) \<and>
        ast b1 = t') \<and>
     (\<forall>n\<in>set (class_types t'). \<forall>c.
        local_target (local_map t') n = Some c \<and> one_name_per_object (class_types t') \<longrightarrow>
        cls s' (snd n) = Some c)"
  proof (intro conjI ballI allI impI)
    show "\<exists>b1 s1. LookupClassReferences b mm (Some (node_name (ast b))) s = Inr (b1, s1) \<and>
        ast b1 = t'"
      using l t by blast
  next
    fix n c
    assume "n \<in> set (class_types t')"
      and "local_target (local_map t') n = Some c \<and> one_name_per_object (class_types t')"
    then show "cls s' (snd n) = Some c"
      using main [of n c] by (simp add: t)
  qed
qed

theorem ProcessAst_local_pointers_target_resolved_tree_witness:
  "(case ProcessAst \<lparr>ast = TypeDeclUnit ''m'' [Constant ''m.y'' (ClassType ''m.A'' 0)] []
             [Class ''m.A'' [] [] [Constant ''x'' (ClassType ''other.Al'' 1)]] [] [],
           dependencies = [''m'', ''other''],
           class_type_nodes = Some [(''m.A'', 0), (''other.Al'', 1)]\<rparr>
        [''other'' \<mapsto> TypeDeclUnit ''other'' [] [] [] [] [Alias ''other.Al'' (NamedType ''int'')]]
        s_empty of
      Inl e \<Rightarrow> False
    | Inr (t', s') \<Rightarrow>
        t' = TypeDeclUnit ''m'' [Constant ''m.y'' (ClassType ''m.A'' 0)] []
               [Class ''m.A'' [] [] [Constant ''x'' (NamedType ''int'')]] [] [] \<and>
        cls s' 0 = Some (Class ''m.A'' [] [] [Constant ''x'' (NamedType ''int'')]) \<and>
        cls s' 0 \<noteq> Some (Class ''m.A'' [] [] [Constant ''x'' (ClassType ''other.Al'' 1)]))"
proof -
  let ?b = "\<lparr>ast = TypeDeclUnit ''m'' [Constant ''m.y'' (ClassType ''m.A'' 0)] []
             [Class ''m.A'' [] [] [Constant ''x'' (ClassType ''other.Al'' 1)]] [] [],
           dependencies = [''m'', ''other''],
           class_type_nodes = Some [(''m.A'', 0), (''other.Al'', 1)]\<rparr>"
  let ?mm = "[''other'' \<mapsto> TypeDeclUnit ''other'' [] [] [] [] [Alias ''other.Al'' (NamedType ''int'')]]"
  let ?t' = "TypeDeclUnit ''m'' [Constant ''m.y'' (ClassType ''m.A'' 0)] []
               [Class ''m.A'' [] [] [Constant ''x'' (NamedType ''int'')]] [] []"
  obtain s' where r: "ProcessAst ?b ?mm s_empty = Inr (?t', s')"
    by (simp add: eval_defs)
  have i: "index_sound ?b" by (simp add: index_sound_def)
  have n: "(''m.A'', 0) \<in> set (class_types ?t')" by simp
  have c: "local_target (local_map ?t') (''m.A'', 0)
      = Some (Class ''m.A'' [] [] [Constant ''x'' (NamedType ''int'')])"
    by (simp add: local_target_def local_map_def rpartition_def)
  have o: "one_name_per_object (class_types ?t')"
    by (simp add: one_name_per_object_def)
  have "\<forall>n\<in>set (class_types ?t'). \<forall>c.
        local_target (local_map ?t') n = Some c \<and> one_name_per_object (class_types ?t') \<longrightarrow>
        cls s' (snd n) = Some c"
    using ProcessAst_local_pointers_target_resolved_tree [of ?b ?mm s_empty ?t' s'] r i
    by (elim impE conjE) (rule conjI)
  from this [rule_format, OF n conjI [OF c o]]
  have "cls s' 0 = Some (Class ''m.A'' [] [] [Constant ''x'' (NamedType ''int'')])"
    by simp
  then show ?thesis using r by simp
qed

section \<open>Unresolved dependencies\<close>

text \<open>
  Claim C3. When a class reference of the tree names another module than the tree's and
  the module map holds no class and no alias under that name, \<open>ProcessAst\<close> returns no
  tree: it raises an \<open>UnrestorableDependencyError\<close> whose message names a class reference
  of the tree that the module map does not hold (the first one that resolution meets).
  The index of the bundle is sound.
\<close>

theorem ProcessAst_unresolved_dependency:
  "index_sound b \<and> n \<in> set (class_types (ast b)) \<and>
     unresolved mm (Some (node_name (ast b))) n \<longrightarrow>
   (\<exists>m\<in>set (class_types (ast b)). unresolved mm (Some (node_name (ast b))) m \<and>
      ProcessAst b mm s =
        Inl (UnrestorableDependencyError (''Unresolved class: '' @ repr (fst m) @ ''.'')))"
proof
  assume a: "index_sound b \<and> n \<in> set (class_types (ast b)) \<and>
     unresolved mm (Some (node_name (ast b))) n"
  then have "\<exists>m\<in>set (class_types (ast b)). unresolved mm (Some (node_name (ast b))) m \<and>
     LookupClassReferences b mm (Some (node_name (ast b))) s =
       Inl (UnrestorableDependencyError (''Unresolved class: '' @ repr (fst m) @ ''.''))"
    using LookupClassReferences_unresolved [of b n mm "Some (node_name (ast b))" s] by blast
  then show "\<exists>m\<in>set (class_types (ast b)). unresolved mm (Some (node_name (ast b))) m \<and>
      ProcessAst b mm s =
        Inl (UnrestorableDependencyError (''Unresolved class: '' @ repr (fst m) @ ''.''))"
    by (auto simp: ProcessAst_def)
qed

theorem ProcessAst_unresolved_dependency_witness:
  "index_sound \<lparr>ast = TypeDeclUnit ''m'' [Constant ''m.x'' (ClassType ''other.C'' 0),
          Constant ''m.y'' (ClassType ''pkg.Missing'' 1)] [] [] [] [],
        dependencies = [''other'', ''pkg''],
        class_type_nodes = Some [(''other.C'', 0), (''pkg.Missing'', 1)]\<rparr> \<and>
   unresolved [''other'' \<mapsto> TypeDeclUnit ''other'' [] [] [Class ''other.C'' [] [] []] [] []]
     (Some ''m'') (''pkg.Missing'', 1) \<and>
   \<not> unresolved [''other'' \<mapsto> TypeDeclUnit ''other'' [] [] [Class ''other.C'' [] [] []] [] []]
     (Some ''m'') (''other.C'', 0) \<and>
   ProcessAst \<lparr>ast = TypeDeclUnit ''m'' [Constant ''m.x'' (ClassType ''other.C'' 0),
          Constant ''m.y'' (ClassType ''pkg.Missing'' 1)] [] [] [] [],
        dependencies = [''other'', ''pkg''],
        class_type_nodes = Some [(''other.C'', 0), (''pkg.Missing'', 1)]\<rparr>
     [''other'' \<mapsto> TypeDeclUnit ''other'' [] [] [Class ''other.C'' [] [] []] [] []] s_empty
   = Inl (UnrestorableDependencyError (''Unresolved class: '' @ repr ''pkg.Missing'' @ ''.''))"
proof -
  let ?t = "TypeDeclUnit ''m'' [Constant ''m.x'' (ClassType ''other.C'' 0),
          Constant ''m.y'' (ClassType ''pkg.Missing'' 1)] [] [] [] []"
  let ?b = "\<lparr>ast = ?t, dependencies = [''other'', ''pkg''],
        class_type_nodes = Some [(''other.C'', 0), (''pkg.Missing'', 1)]\<rparr>"
  let ?mm = "[''other'' \<mapsto> TypeDeclUnit ''other'' [] [] [Class ''other.C'' [] [] []] [] []]"
  have i: "index_sound ?b" by (simp add: index_sound_def)
  have u: "unresolved ?mm (Some ''m'') (''pkg.Missing'', 1)"
    by (simp add: unresolved_def rpartition_def)
  have v: "\<not> unresolved ?mm (Some ''m'') (''other.C'', 0)"
    by (simp add: unresolved_def rpartition_def)
  have "\<exists>m\<in>set (class_types ?t). unresolved ?mm (Some ''m'') m \<and>
      ProcessAst ?b ?mm s_empty =
        Inl (UnrestorableDependencyError (''Unresolved class: '' @ repr (fst m) @ ''.''))"
    using ProcessAst_unresolved_dependency
      [where b = ?b and n = "(''pkg.Missing'', 1)" and mm = ?mm and s = s_empty] i u
    by simp
  then have "ProcessAst ?b ?mm s_empty =
      Inl (UnrestorableDependencyError (''Unresolved class: '' @ repr ''pkg.Missing'' @ ''.''))"
    using v by auto
  then show ?thesis using i u v by simp
qed

section \<open>Storing and loading again\<close>

text \<open>
  Claim C1. The claim as stated fails: storing a tree whose name ends in \<open>.__init__\<close>
  renames the tree, so the names of the members that begin with the old module name
  change too, not only the name of the root.
\<close>

theorem round_trip_renames_members:
  "(case StoreAst (TypeDeclUnit ''pkg.__init__'' [] [] [Class ''pkg.__init__.Foo'' [] [] []] [] [])
           s_empty of
      Inl e \<Rightarrow> False
    | Inr (b, s1) \<Rightarrow>
        ProcessAst b Map.empty s1 =
          Inr (TypeDeclUnit ''pkg'' [] [] [Class ''pkg.Foo'' [] [] []] [] [], s_empty)) \<and>
   TypeDeclUnit ''pkg'' [] [] [Class ''pkg.Foo'' [] [] []] [] [] \<noteq>
     Replace_name (TypeDeclUnit ''pkg.__init__'' [] [] [Class ''pkg.__init__.Foo'' [] [] []] [] [])
       ''pkg''"
  by (simp add: eval_defs s_empty_def)

text \<open>
  Claim C1, amended. When \<open>StoreAst\<close> stores the tree \<open>t\<close> and every class reference of
  the stored tree resolves to a class (in the module map when it names another module, in
  the stored tree otherwise), \<open>ProcessAst\<close> returns the stored tree, and the pointer of
  every class reference of it is set. The stored tree is \<open>t\<close> when the name of \<open>t\<close> does
  not end in \<open>.__init__\<close>, and otherwise the tree that the module renamer makes of \<open>t\<close>
  for the name without the suffix.
\<close>

theorem StoreAst_ProcessAst_round_trip:
  "StoreAst t s = Inr (b, s1) \<and> (\<forall>n\<in>set (class_types (ast b)). resolvable mm (ast b) n) \<longrightarrow>
     (\<exists>s2. ProcessAst b mm s1 = Inr (ast b, s2) \<and>
        (\<forall>n\<in>set (class_types (ast b)). cls s2 (snd n) \<noteq> None)) \<and>
     (if endswith (node_name t) ''.__init__''
      then \<exists>r s0. RenameModuleVisitor (node_name t) (rsplit1_head (node_name t) ''.__init__'')
               = Inr r \<and>
             Visit (rename_visitor r) t s = Inr (ast b, s0)
      else ast b = t)"
proof
  assume a: "StoreAst t s = Inr (b, s1) \<and>
    (\<forall>n\<in>set (class_types (ast b)). resolvable mm (ast b) n)"
  then have st: "StoreAst t s = Inr (b, s1)"
    and r: "\<forall>n\<in>set (class_types (ast b)). resolvable mm (ast b) n"
    by simp_all
  from st obtain t1 s0 where
    c: "if endswith (node_name t) ''.__init__''
     then \<exists>r. RenameModuleVisitor (node_name t) (rsplit1_head (node_name t) ''.__init__'') = Inr r
              \<and> Visit (rename_visitor r) t s = Inr (t1, s0)
     else t1 = t \<and> s0 = s"
    and b: "b = \<lparr>ast = t1,
              dependencies = sorted_list_of_set (fold EnterClassType_deps (class_types t1) {}),
              class_type_nodes = Some (sort_key fst (class_types t1))\<rparr>"
    by (rule StoreAst_InrD)
  have t1: "ast b = t1" using b by simp
  have i: "class_type_nodes b = Some (sort_key fst (class_types (ast b)))"
    using b by simp
  have 1: "\<exists>s2. ProcessAst b mm s1 = Inr (ast b, s2) \<and>
        (\<forall>n\<in>set (class_types (ast b)). cls s2 (snd n) \<noteq> None)"
    using i _ r by (rule ProcessAst_resolvable) simp
  have 2: "if endswith (node_name t) ''.__init__''
      then \<exists>r s0. RenameModuleVisitor (node_name t) (rsplit1_head (node_name t) ''.__init__'')
               = Inr r \<and>
             Visit (rename_visitor r) t s = Inr (ast b, s0)
      else ast b = t"
    using c unfolding t1 by (auto split: if_splits)
  from 1 2 show "(\<exists>s2. ProcessAst b mm s1 = Inr (ast b, s2) \<and>
        (\<forall>n\<in>set (class_types (ast b)). cls s2 (snd n) \<noteq> None)) \<and>
     (if endswith (node_name t) ''.__init__''
      then \<exists>r s0. RenameModuleVisitor (node_name t) (rsplit1_head (node_name t) ''.__init__'')
               = Inr r \<and>
             Visit (rename_visitor r) t s = Inr (ast b, s0)
      else ast b = t)"
    by (rule conjI)
qed


theorem StoreAst_ProcessAst_round_trip_witness:
  "StoreAst (TypeDeclUnit ''pkg.__init__''
       [Constant ''pkg.__init__.x'' (ClassType ''pkg.__init__.Foo'' 0),
        Constant ''pkg.__init__.y'' (ClassType ''other.C'' 1)] []
       [Class ''pkg.__init__.Foo'' [] [] []] [] []) s_empty =
     Inr (\<lparr>ast = TypeDeclUnit ''pkg''
              [Constant ''pkg.x'' (ClassType ''pkg.Foo'' 3),
               Constant ''pkg.y'' (ClassType ''other.C'' 1)] []
              [Class ''pkg.Foo'' [] [] []] [] [],
            dependencies = [''other'', ''pkg''],
            class_type_nodes = Some [(''other.C'', 1), (''pkg.Foo'', 3)]\<rparr>,
          \<lparr>cls = (\<lambda>p. None), fresh = 4\<rparr>) \<and>
   list_all (resolvable
       [''other'' \<mapsto> TypeDeclUnit ''other'' [] [] [Class ''other.C'' [] [] []] [] []]
       (TypeDeclUnit ''pkg''
              [Constant ''pkg.x'' (ClassType ''pkg.Foo'' 3),
               Constant ''pkg.y'' (ClassType ''other.C'' 1)] []
              [Class ''pkg.Foo'' [] [] []] [] []))
     [(''pkg.Foo'', 3), (''other.C'', 1)] \<and>
   (\<exists>s2. ProcessAst \<lparr>ast = TypeDeclUnit ''pkg''
              [Constant ''pkg.x'' (ClassType ''pkg.Foo'' 3),
               Constant ''pkg.y'' (ClassType ''other.C'' 1)] []
              [Class ''pkg.Foo'' [] [] []] [] [],
            dependencies = [''other'', ''pkg''],
            class_type_nodes = Some [(''other.C'', 1), (''pkg.Foo'', 3)]\<rparr>
         [''other'' \<mapsto> TypeDeclUnit ''other'' [] [] [Class ''other.C'' [] [] []] [] []]
         \<lparr>cls = (\<lambda>p. None), fresh = 4\<rparr> =
       Inr (TypeDeclUnit ''pkg''
              [Constant ''pkg.x'' (ClassType ''pkg.Foo'' 3),
               Constant ''pkg.y'' (ClassType ''other.C'' 1)] []
              [Class ''pkg.Foo'' [] [] []] [] [], s2) \<and>
       cls s2 3 = Some (Class ''pkg.Foo'' [] [] []) \<and>
       cls s2 1 = Some (Class ''other.C'' [] [] []))"
proof -
  let ?t = "TypeDeclUnit ''pkg.__init__''
       [Constant ''pkg.__init__.x'' (ClassType ''pkg.__init__.Foo'' 0),
        Constant ''pkg.__init__.y'' (ClassType ''other.C'' 1)] []
       [Class ''pkg.__init__.Foo'' [] [] []] [] []"
  let ?u = "TypeDeclUnit ''pkg''
              [Constant ''pkg.x'' (ClassType ''pkg.Foo'' 3),
               Constant ''pkg.y'' (ClassType ''other.C'' 1)] []
              [Class ''pkg.Foo'' [] [] []] [] []"
  let ?b = "\<lparr>ast = ?u, dependencies = [''other'', ''pkg''],
            class_type_nodes = Some [(''other.C'', 1), (''pkg.Foo'', 3)]\<rparr>"
  let ?mm = "[''other'' \<mapsto> TypeDeclUnit ''other'' [] [] [Class ''other.C'' [] [] []] [] []]"
  let ?s1 = "\<lparr>cls = (\<lambda>p. None), fresh = 4\<rparr>"
  have st: "StoreAst ?t s_empty = Inr (?b, ?s1)"
    by (simp add: eval_defs s_empty_def insert_commute)
  have r: "list_all (resolvable ?mm ?u) [(''pkg.Foo'', 3), (''other.C'', 1)]"
    by (simp add: resolvable_def local_target_def local_map_def rpartition_def)
  then have r': "\<forall>n\<in>set (class_types (ast ?b)). resolvable ?mm (ast ?b) n"
    by simp
  from StoreAst_ProcessAst_round_trip
    [where t = ?t and s = s_empty and b = ?b and ?s1.0 = ?s1 and mm = ?mm] st r'
  obtain s2 where p: "ProcessAst ?b ?mm ?s1 = Inr (ast ?b, s2)"
    and nn: "\<forall>n\<in>set (class_types (ast ?b)). cls s2 (snd n) \<noteq> None"
    by blast
  have "ProcessAst ?b ?mm ?s1 =
      Inr (?u, \<lparr>cls = (\<lambda>p. None)(1 \<mapsto> Class ''other.C'' [] [] [], 3 \<mapsto> Class ''pkg.Foo'' [] [] []),
             fresh = 4\<rparr>)"
    by (simp add: eval_defs)
  with p have "cls s2 3 = Some (Class ''pkg.Foo'' [] [] [])"
    "cls s2 1 = Some (Class ''other.C'' [] [] [])"
    by auto
  with p have "\<exists>s2. ProcessAst ?b ?mm ?s1 = Inr (?u, s2) \<and>
       cls s2 3 = Some (Class ''pkg.Foo'' [] [] []) \<and>
       cls s2 1 = Some (Class ''other.C'' [] [] [])"
    by simp
  with st r show ?thesis by blast
qed

end
